theory Spec2Isabelle
  imports Complex_Main "HOL-Library.Word" "HOL-Library.Monad_Syntax"
begin

section \<open>The per-worker proxy engine of mcrouter (mcrouter/proxy.cpp)\<close>

text \<open>
  The development follows \<^verbatim>\<open>mcrouter/proxy.cpp\<close>. A worker (\<^verbatim>\<open>proxy_t\<close>) is a record,
  the requests its pointers refer to live in an explicit store, a failed assertion or the
  dereference of a dead pointer is the result \<open>None\<close>, and a C++ exception is the left
  summand of a sum. Declarations that live in headers outside this file (the enumerations
  of operations and result codes, the JSON value type, the configuration builder) are
  given here with the constructors the file names. The counters
  \<^verbatim>\<open>numRequestsProcessing_\<close>, \<^verbatim>\<open>proxy_max_inflight_requests\<close> and the statistics are
  unsigned 64-bit machine words; the reference count and the delay counter of a request
  are integers. Logging, the timers of the dynamic statistics and the writer threads
  change nothing that is modelled and are left out.
\<close>

subsection \<open>Messages\<close>

datatype mc_op_t =
    mc_op_unknown | mc_op_stats | mc_op_version | mc_op_get_service_info
  | mc_op_get | mc_op_metaget | mc_op_add | mc_op_replace | mc_op_set
  | mc_op_incr | mc_op_decr | mc_op_delete | mc_op_lease_set | mc_op_lease_get
  | mc_op_other nat

datatype mc_res_t = mc_res_unknown | mc_res_local_error | mc_res_code nat

record mc_msg_t =
  op :: mc_op_t
  key :: string
  result :: mc_res_t
  msg_value :: string

subsection \<open>Requests\<close>

datatype reply_state_t =
  REPLY_STATE_NO_REPLY | REPLY_STATE_REPLY_DELAYED | REPLY_STATE_REPLIED

record proxy_request_t =
  orig_req :: mc_msg_t
  reply :: "mc_msg_t option"
  reply_state :: reply_state_t
  delay_reply :: int
  failover_disabled :: int
  refcount :: int
  sender_id :: nat
  legacy_get_service_info :: bool
  has_reqComplete :: bool
  processing :: bool

type_synonym preq_ptr = nat

subsection \<open>Configuration snapshots and the worker\<close>

datatype pool_type_t = REGULAR_POOL | REGIONAL_POOL | MIGRATED_POOL | POOL_TYPE_OTHER nat

record ProxyConfig =
  poolsMap :: "(string \<times> pool_type_t \<times> nat) list"
  clientsMapSize :: nat
  configMd5Digest :: string

datatype stat_name_t =
    proxy_request_num_outstanding_stat | proxy_reqs_processing_stat | proxy_reqs_waiting_stat
  | cmd_stats_stat | cmd_stats_count_stat | cmd_get_stat | cmd_get_count_stat
  | cmd_meta_stat | cmd_add_stat | cmd_add_count_stat
  | cmd_replace_stat | cmd_replace_count_stat | cmd_set_stat | cmd_set_count_stat
  | cmd_incr_stat | cmd_incr_count_stat | cmd_decr_stat | cmd_decr_count_stat
  | cmd_delete_stat | cmd_delete_count_stat
  | cmd_lease_set_stat | cmd_lease_set_count_stat
  | cmd_lease_get_stat | cmd_lease_get_count_stat
  | cmd_other_stat | cmd_other_count_stat
  | request_sent_stat | request_sent_count_stat
  | request_replied_stat | request_replied_count_stat
  | request_error_stat | request_error_count_stat
  | request_success_stat | request_success_count_stat
  | num_servers_stat | config_last_success_stat

record McrouterOptions =
  proxy_max_inflight_requests :: "64 word"
  sync :: bool
  opts_default_route :: string
  num_proxies :: nat
  constantly_reload_configs :: bool

datatype queue_entry_t = request_type_old_config ProxyConfig

text \<open>
  The worker. \<open>heap\<close> is the store of the requests the worker's pointers refer to;
  \<open>waitingRequests\<close> is the \<^verbatim>\<open>TAILQ\<close> of waiters, head first; \<open>fiberTasks\<close> are the tasks
  handed to \<^verbatim>\<open>fiberManager.addTaskFinally\<close>, in submission order, each named by the request
  it carries; \<open>serviceInfoRequests\<close> are the requests handed to the configuration's
  service-info handler; \<open>enqueuedReplies\<close> and \<open>completedRequests\<close> record the calls of the
  callbacks \<^verbatim>\<open>enqueueReply_\<close> and \<^verbatim>\<open>reqComplete_\<close>; \<open>destinationMap\<close> holds for every
  destination whether it is marked as used.
\<close>

record proxy_t =
  opts :: McrouterOptions
  default_route :: string
  default_region :: string
  default_cluster :: string
  numRequestsProcessing :: "64 word"
  waitingRequests :: "preq_ptr list"
  stats :: "stat_name_t \<Rightarrow> 64 word"
  heap :: "preq_ptr \<rightharpoonup> proxy_request_t"
  fiberTasks :: "preq_ptr list"
  serviceInfoRequests :: "preq_ptr list"
  enqueuedReplies :: "(preq_ptr \<times> mc_msg_t option) list"
  completedRequests :: "preq_ptr list"
  config :: "ProxyConfig option"
  destinationMap :: "(string \<times> bool) list"
  request_queue :: "queue_entry_t list"

text \<open>
  Functions of the repository that this file calls and does not define:
  \<^verbatim>\<open>mc_client_req_is_valid\<close>, \<^verbatim>\<open>mc_res_is_err\<close> and \<^verbatim>\<open>stats_reply\<close>. They are
  parameters of the model.
\<close>

record externals =
  mc_client_req_is_valid :: "mc_msg_t \<Rightarrow> bool"
  mc_res_is_err :: "mc_res_t \<Rightarrow> bool"
  stats_reply :: "proxy_t \<Rightarrow> string \<Rightarrow> mc_msg_t"

definition stat_incr :: "proxy_t \<Rightarrow> stat_name_t \<Rightarrow> 64 word \<Rightarrow> proxy_t" where
  "stat_incr p s n = p\<lparr>stats := (stats p)(s := stats p s + n)\<rparr>"

definition stat_decr :: "proxy_t \<Rightarrow> stat_name_t \<Rightarrow> 64 word \<Rightarrow> proxy_t" where
  "stat_decr p s n = p\<lparr>stats := (stats p)(s := stats p s - n)\<rparr>"

definition stat_set_uint64 :: "proxy_t \<Rightarrow> stat_name_t \<Rightarrow> 64 word \<Rightarrow> proxy_t" where
  "stat_set_uint64 p s n = p\<lparr>stats := (stats p)(s := n)\<rparr>"

subsection \<open>Admission: \<^verbatim>\<open>proxy_t::rateLimited\<close>\<close>

definition rateLimited :: "proxy_t \<Rightarrow> proxy_request_t \<Rightarrow> bool" where
  "rateLimited p preq =
     (if proxy_max_inflight_requests (opts p) = 0 then False
      else if op (orig_req preq) = mc_op_stats \<or>
              op (orig_req preq) = mc_op_version \<or>
              op (orig_req preq) = mc_op_get_service_info then False
      else if waitingRequests p = [] \<and>
              numRequestsProcessing p < proxy_max_inflight_requests (opts p) then False
      else True)"

subsection \<open>The default route: \<^verbatim>\<open>proxy_set_default_route\<close>\<close>

text \<open>
  The pattern \<^verbatim>\<open>^/[^/]+/[^/]+/?$\<close> is a sequence of pieces, each a character or a
  negated character, taken once, once or more (\<^verbatim>\<open>+\<close>) or at most once (\<^verbatim>\<open>?\<close>).
  \<^verbatim>\<open>boost::regex_match\<close> succeeds when the pattern matches the whole input, which is what
  the anchors \<^verbatim>\<open>^\<close> and \<^verbatim>\<open>$\<close> ask for as well; \<open>regex_match\<close> tries every way of
  splitting the input among the pieces.
\<close>

datatype regex_atom = Lit char | NotLit char

datatype regex_piece = Once regex_atom | Plus regex_atom | Opt regex_atom

fun atom_matches :: "regex_atom \<Rightarrow> char \<Rightarrow> bool" where
  "atom_matches (Lit a) c = (c = a)"
| "atom_matches (NotLit a) c = (c \<noteq> a)"

fun regex_match :: "string \<Rightarrow> regex_piece list \<Rightarrow> bool" where
  "regex_match s [] = (s = [])"
| "regex_match [] (Once a # ps) = False"
| "regex_match (c # cs) (Once a # ps) = (atom_matches a c \<and> regex_match cs ps)"
| "regex_match [] (Plus a # ps) = False"
| "regex_match (c # cs) (Plus a # ps) =
     (atom_matches a c \<and> (regex_match cs (Plus a # ps) \<or> regex_match cs ps))"
| "regex_match [] (Opt a # ps) = regex_match [] ps"
| "regex_match (c # cs) (Opt a # ps) =
     ((atom_matches a c \<and> regex_match cs ps) \<or> regex_match (c # cs) ps)"

definition routeRegex :: "regex_piece list" where
  "routeRegex = [Once (Lit CHR ''/''), Plus (NotLit CHR ''/''),
                 Once (Lit CHR ''/''), Plus (NotLit CHR ''/''), Opt (Lit CHR ''/'')]"

text \<open>
  \<^verbatim>\<open>std::string::find(ch, pos)\<close>: the index of the first \<open>ch\<close> at or after \<open>pos\<close>, or
  \<^verbatim>\<open>npos\<close> (here \<open>None\<close>). \<^verbatim>\<open>std::string::substr(pos, n)\<close> throws when \<open>pos\<close> is beyond
  the size; \<open>n\<close> is an unsigned machine word, so a difference of sizes wraps around.
\<close>

definition string_find :: "string \<Rightarrow> char \<Rightarrow> nat \<Rightarrow> nat option" where
  "string_find s ch pos =
     (case dropWhile (\<lambda>c. c \<noteq> ch) (drop pos s) of
        [] \<Rightarrow> None
      | _ # _ \<Rightarrow> Some (pos + length (takeWhile (\<lambda>c. c \<noteq> ch) (drop pos s))))"

definition size_sub :: "nat \<Rightarrow> nat \<Rightarrow> nat" where
  "size_sub a b = (if b \<le> a then a - b else a + 2 ^ 64 - b)"

definition string_substr :: "string \<Rightarrow> nat \<Rightarrow> nat \<Rightarrow> string option" where
  "string_substr s pos n = (if length s < pos then None else Some (take n (drop pos s)))"

text \<open>
  A failed \<^verbatim>\<open>FBI_ASSERT\<close> and the \<^verbatim>\<open>std::out_of_range\<close> of \<^verbatim>\<open>substr\<close> end the call
  without a result: \<open>None\<close>.
\<close>

definition proxy_set_default_route :: "proxy_t \<Rightarrow> string \<Rightarrow> proxy_t option" where
  "proxy_set_default_route proxy str =
     (if str = [] then Some proxy
      else if \<not> regex_match str routeRegex then Some proxy
      else do {
        let p1 = proxy\<lparr>default_route := str\<rparr>;
        let p2 = (if last str \<noteq> CHR ''/''
                  then p1\<lparr>default_route := default_route p1 @ ''/''\<rparr> else p1);
        regionEnd \<leftarrow> string_find (default_route p2) CHR ''/'' 1;
        region \<leftarrow> string_substr (default_route p2) 1 (size_sub regionEnd 1);
        let p3 = p2\<lparr>default_region := region\<rparr>;
        clusterEnd \<leftarrow> string_find (default_route p3) CHR ''/'' (regionEnd + 1);
        cluster \<leftarrow> string_substr (default_route p3) (regionEnd + 1)
                     (size_sub (size_sub clusterEnd regionEnd) 1);
        Some (p3\<lparr>default_cluster := cluster\<rparr>)
      })"

text \<open>
  The constructor \<^verbatim>\<open>proxy_t::proxy_t\<close>: every statistic is 0, the list of waiters is
  empty, no configuration is installed, and the default route is taken from the options.
\<close>

definition proxy_t_init :: "McrouterOptions \<Rightarrow> proxy_t" where
  "proxy_t_init options =
     \<lparr>opts = options, default_route = [], default_region = [], default_cluster = [],
      numRequestsProcessing = 0, waitingRequests = [], stats = (\<lambda>_. 0),
      heap = Map.empty, fiberTasks = [], serviceInfoRequests = [],
      enqueuedReplies = [], completedRequests = [], config = None,
      destinationMap = [], request_queue = []\<rparr>"

definition new_proxy_t :: "McrouterOptions \<Rightarrow> proxy_t option" where
  "new_proxy_t options = proxy_set_default_route (proxy_t_init options) (opts_default_route options)"

subsection \<open>Constructing a request: \<^verbatim>\<open>proxy_request_t::proxy_request_t\<close>\<close>

text \<open>
  A C string ends at its first NUL character. \<^verbatim>\<open>strncmp(a, b, n) == 0\<close> holds when the
  first \<open>n\<close> characters of the two C strings agree. \<^verbatim>\<open>shift_nstring_inplace\<close> moves the
  start of a counted string forward.
\<close>

definition c_str :: "string \<Rightarrow> string" where
  "c_str s = takeWhile (\<lambda>c. c \<noteq> CHR 0x00) s"

definition strncmp_eq :: "string \<Rightarrow> string \<Rightarrow> nat \<Rightarrow> bool" where
  "strncmp_eq a b n = (take n (c_str a) = take n (c_str b))"

definition shift_nstring_inplace :: "string \<Rightarrow> nat \<Rightarrow> string" where
  "shift_nstring_inplace nstr pos = drop pos nstr"

definition kInternalGetPrefix :: string where
  "kInternalGetPrefix = ''__mcrouter__.''"

datatype thrown = std_exception string | other_exception

text \<open>
  The constructor throws on an invalid request; otherwise it yields the new request and
  the worker with one more outstanding request.
\<close>

definition new_proxy_request_t ::
  "externals \<Rightarrow> proxy_t \<Rightarrow> mc_msg_t \<Rightarrow> bool \<Rightarrow> nat \<Rightarrow> thrown + (proxy_request_t \<times> proxy_t)" where
  "new_proxy_request_t E p req reqComplete senderId =
     (if \<not> mc_client_req_is_valid E req then Inl (std_exception ''Invalid request'')
      else
        let this = \<lparr>orig_req = req, reply = None, reply_state = REPLY_STATE_NO_REPLY,
                    delay_reply = 0, failover_disabled = 0, refcount = 1,
                    sender_id = senderId, legacy_get_service_info = False,
                    has_reqComplete = reqComplete, processing = False\<rparr>;
            this1 =
              (if op req = mc_op_get \<and>
                  strncmp_eq (key req) kInternalGetPrefix (length kInternalGetPrefix)
               then this\<lparr>legacy_get_service_info := True,
                         orig_req := req\<lparr>op := mc_op_get_service_info,
                                          key := shift_nstring_inplace (key req)
                                                   (length kInternalGetPrefix)\<rparr>\<rparr>
               else this\<lparr>orig_req := req\<rparr>)
        in Inr (this1, stat_incr p proxy_request_num_outstanding_stat 1))"

definition proxy_request_incref :: "preq_ptr \<Rightarrow> proxy_t \<Rightarrow> proxy_t option" where
  "proxy_request_incref preq p = do {
     q \<leftarrow> heap p preq;
     if 0 < refcount q
     then Some (p\<lparr>heap := (heap p)(preq \<mapsto> q\<lparr>refcount := refcount q + 1\<rparr>)\<rparr>)
     else None
   }"

subsection \<open>The reply path\<close>

definition enqueueReply :: "preq_ptr \<Rightarrow> proxy_t \<Rightarrow> proxy_t option" where
  "enqueueReply preq p = do {
     q \<leftarrow> heap p preq;
     Some (p\<lparr>enqueuedReplies := enqueuedReplies p @ [(preq, reply q)]\<rparr>)
   }"

definition continueSendReply :: "externals \<Rightarrow> preq_ptr \<Rightarrow> proxy_t \<Rightarrow> proxy_t option" where
  "continueSendReply E preq p = do {
     q \<leftarrow> heap p preq;
     let p1 = p\<lparr>heap := (heap p)(preq \<mapsto> q\<lparr>reply_state := REPLY_STATE_REPLIED\<rparr>)\<rparr>;
     p2 \<leftarrow> (if \<not> sync (opts p1) then enqueueReply preq p1 else Some p1);
     let p3 = stat_incr (stat_incr p2 request_replied_stat 1) request_replied_count_stat 1;
     r \<leftarrow> reply q;
     Some (if mc_res_is_err E (result r)
           then stat_incr (stat_incr p3 request_error_stat 1) request_error_count_stat 1
           else stat_incr (stat_incr p3 request_success_stat 1) request_success_count_stat 1)
   }"

definition sendReply :: "externals \<Rightarrow> preq_ptr \<Rightarrow> mc_msg_t \<Rightarrow> proxy_t \<Rightarrow> proxy_t option" where
  "sendReply E preq newReply p = do {
     q \<leftarrow> heap p preq;
     if reply q \<noteq> None then None
     else do {
       let q1 = q\<lparr>reply := Some (newReply\<lparr>op := (if legacy_get_service_info q then mc_op_get
                                                     else op (orig_req q))\<rparr>)\<rparr>;
       let p1 = p\<lparr>heap := (heap p)(preq \<mapsto> q1)\<rparr>;
       if reply_state q1 \<noteq> REPLY_STATE_NO_REPLY then Some p1
       else if delay_reply q1 = 0 then continueSendReply E preq p1
       else Some (p1\<lparr>heap := (heap p1)(preq \<mapsto> q1\<lparr>reply_state := REPLY_STATE_REPLY_DELAYED\<rparr>)\<rparr>)
     }
   }"

definition proxy_on_continue_reply_error :: "externals \<Rightarrow> preq_ptr \<Rightarrow> proxy_t \<Rightarrow> proxy_t option" where
  "proxy_on_continue_reply_error E preq p = do {
     q \<leftarrow> heap p preq;
     if reply_state q = REPLY_STATE_REPLY_DELAYED \<and> delay_reply q = 1
     then continueSendReply E preq p
     else Some p
   }"

text \<open>
  \<^verbatim>\<open>new_reply\<close> copies a C string into the value of a fresh, zeroed message;
  \<^verbatim>\<open>create_reply\<close> then sets the operation and the result.
\<close>

definition new_reply :: "string option \<Rightarrow> mc_msg_t" where
  "new_reply str =
     (case str of
        None \<Rightarrow> \<lparr>op = mc_op_unknown, key = [], result = mc_res_unknown, msg_value = []\<rparr>
      | Some s \<Rightarrow> \<lparr>op = mc_op_unknown, key = [], result = mc_res_unknown, msg_value = c_str s\<rparr>)"

definition create_reply :: "mc_op_t \<Rightarrow> mc_res_t \<Rightarrow> string option \<Rightarrow> mc_msg_t" where
  "create_reply operation res str = (new_reply str)\<lparr>op := operation, result := res\<rparr>"

subsection \<open>Routing a request: \<^verbatim>\<open>routeHandlesProcessRequest\<close> and \<^verbatim>\<open>processRequest\<close>\<close>

text \<open>
  The function run on the fiber. The root route handle of the current configuration is a
  parameter: it answers with a reply or throws. \<^verbatim>\<open>releasedMsg(op)\<close> yields the reply's
  message under the given operation. Only a \<^verbatim>\<open>std::exception\<close> is caught; the result is
  the message written to the result slot, or the exception that leaves the task.
\<close>

definition fiber_task :: "(mc_msg_t \<Rightarrow> thrown + mc_msg_t) \<Rightarrow> proxy_request_t \<Rightarrow> thrown + mc_msg_t" where
  "fiber_task dispatchMcMsg ppreq =
     (case dispatchMcMsg (orig_req ppreq) of
        Inr rep \<Rightarrow> Inr (rep\<lparr>op := op (orig_req ppreq)\<rparr>)
      | Inl (std_exception what) \<Rightarrow>
          (let err = ''error routing '' @ key (orig_req ppreq) @ '': '' @ c_str what
           in Inr (create_reply (op (orig_req ppreq)) mc_res_local_error (Some err)))
      | Inl other_exception \<Rightarrow> Inl other_exception)"

definition routeHandlesProcessRequest :: "externals \<Rightarrow> preq_ptr \<Rightarrow> proxy_t \<Rightarrow> proxy_t option" where
  "routeHandlesProcessRequest E preq p = do {
     q \<leftarrow> heap p preq;
     if op (orig_req q) = mc_op_stats
     then sendReply E preq ((stats_reply E p (key (orig_req q)))\<lparr>op := mc_op_stats\<rparr>) p
     else if op (orig_req q) = mc_op_get_service_info
     then (case config p of
             None \<Rightarrow> None
           | Some c \<Rightarrow> Some (p\<lparr>serviceInfoRequests := serviceInfoRequests p @ [preq]\<rparr>))
     else do {
       p1 \<leftarrow> proxy_request_incref preq p;
       Some (p1\<lparr>fiberTasks := fiberTasks p1 @ [preq]\<rparr>)
     }
   }"

definition cmd_stat_incr :: "proxy_t \<Rightarrow> mc_op_t \<Rightarrow> proxy_t" where
  "cmd_stat_incr p operation =
     (case operation of
        mc_op_stats \<Rightarrow> stat_incr (stat_incr p cmd_stats_stat 1) cmd_stats_count_stat 1
      | mc_op_get \<Rightarrow> stat_incr (stat_incr p cmd_get_stat 1) cmd_get_count_stat 1
      | mc_op_metaget \<Rightarrow> stat_incr p cmd_meta_stat 1
      | mc_op_add \<Rightarrow> stat_incr (stat_incr p cmd_add_stat 1) cmd_add_count_stat 1
      | mc_op_replace \<Rightarrow> stat_incr (stat_incr p cmd_replace_stat 1) cmd_replace_count_stat 1
      | mc_op_set \<Rightarrow> stat_incr (stat_incr p cmd_set_stat 1) cmd_set_count_stat 1
      | mc_op_incr \<Rightarrow> stat_incr (stat_incr p cmd_incr_stat 1) cmd_incr_count_stat 1
      | mc_op_decr \<Rightarrow> stat_incr (stat_incr p cmd_decr_stat 1) cmd_decr_count_stat 1
      | mc_op_delete \<Rightarrow> stat_incr (stat_incr p cmd_delete_stat 1) cmd_delete_count_stat 1
      | mc_op_lease_set \<Rightarrow>
          stat_incr (stat_incr p cmd_lease_set_stat 1) cmd_lease_set_count_stat 1
      | mc_op_lease_get \<Rightarrow>
          stat_incr (stat_incr p cmd_lease_get_stat 1) cmd_lease_get_count_stat 1
      | _ \<Rightarrow> stat_incr (stat_incr p cmd_other_stat 1) cmd_other_count_stat 1)"

definition processRequest :: "externals \<Rightarrow> preq_ptr \<Rightarrow> proxy_t \<Rightarrow> proxy_t option" where
  "processRequest E preq p = do {
     q \<leftarrow> heap p preq;
     if processing q then None
     else do {
       let p1 = p\<lparr>heap := (heap p)(preq \<mapsto> q\<lparr>processing := True\<rparr>)\<rparr>;
       let p2 = p1\<lparr>numRequestsProcessing := numRequestsProcessing p1 + 1\<rparr>;
       let p3 = stat_incr p2 proxy_reqs_processing_stat 1;
       let p4 = cmd_stat_incr p3 (op (orig_req q));
       p5 \<leftarrow> routeHandlesProcessRequest E preq p4;
       Some (stat_incr (stat_incr p5 request_sent_stat 1) request_sent_count_stat 1)
     }
   }"

subsection \<open>Admission and the pump\<close>

definition dispatchRequest :: "externals \<Rightarrow> preq_ptr \<Rightarrow> proxy_t \<Rightarrow> proxy_t option" where
  "dispatchRequest E preq p = do {
     q \<leftarrow> heap p preq;
     if rateLimited p q
     then do {
       p1 \<leftarrow> proxy_request_incref preq p;
       let p2 = p1\<lparr>waitingRequests := waitingRequests p1 @ [preq]\<rparr>;
       Some (stat_incr p2 proxy_reqs_waiting_stat 1)
     }
     else processRequest E preq p
   }"

text \<open>
  \<^verbatim>\<open>proxy_t::pump\<close> and \<^verbatim>\<open>proxy_request_decref\<close> call each other: the pump drops the
  reference taken at queuing time, and dropping the last reference of a request that is
  being processed runs the destructor, which decrements the counter and pumps. The
  destructor \<^verbatim>\<open>~proxy_request_t\<close> is the branch of \<open>proxy_request_decref\<close> taken when the
  count reaches 0; the request leaves the store after it. The destructor's release of
  the requester, a client object that this file only holds a pointer to, is left out.
  Every round of the pump shortens the list of waiters, which is why the recursion ends.
\<close>

function pump :: "externals \<Rightarrow> proxy_t \<Rightarrow> proxy_t option"
  and proxy_request_decref :: "externals \<Rightarrow> preq_ptr \<Rightarrow> proxy_t \<Rightarrow> proxy_t option" where
  "pump E p =
     (if numRequestsProcessing p < proxy_max_inflight_requests (opts p) \<and>
         waitingRequests p \<noteq> []
      then do {
        let preq = hd (waitingRequests p);
        let p1 = p\<lparr>waitingRequests := tl (waitingRequests p)\<rparr>;
        let p2 = stat_decr p1 proxy_reqs_waiting_stat 1;
        p3 \<leftarrow> processRequest E preq p2;
        p4 \<leftarrow> proxy_request_decref E preq p3;
        pump E p4
      }
      else Some p)"
| "proxy_request_decref E preq p = do {
     q \<leftarrow> heap p preq;
     if refcount q \<le> 0 then None
     else do {
       p1 \<leftarrow> (if refcount q = 1 \<and> sync (opts p) \<and> reply_state q = REPLY_STATE_REPLIED
               then enqueueReply preq p else Some p);
       let p2 = (if refcount q = 1 \<and> has_reqComplete q
                 then p1\<lparr>completedRequests := completedRequests p1 @ [preq]\<rparr> else p1);
       let p3 = p2\<lparr>heap := (heap p2)(preq \<mapsto> q\<lparr>refcount := refcount q - 1\<rparr>)\<rparr>;
       if 0 < refcount q - 1 then Some p3
       else do {
         p4 \<leftarrow> (if processing q
                 then pump E (stat_decr (p3\<lparr>numRequestsProcessing := numRequestsProcessing p3 - 1\<rparr>)
                                proxy_reqs_processing_stat 1)
                 else Some p3);
         let p5 = p4\<lparr>heap := (heap p4)(preq := None)\<rparr>;
         Some (stat_decr p5 proxy_request_num_outstanding_stat 1)
       }
     }
   }"
  by pat_completeness auto

termination
proof -
  have wq_stat_incr: "\<And>p s n. waitingRequests (stat_incr p s n) = waitingRequests p"
    by (simp add: stat_incr_def)
  have wq_stat_decr: "\<And>p s n. waitingRequests (stat_decr p s n) = waitingRequests p"
    by (simp add: stat_decr_def)
  have wq_enq: "\<And>r p p'. enqueueReply r p = Some p' \<Longrightarrow> waitingRequests p' = waitingRequests p"
    by (auto simp: enqueueReply_def split: bind_splits)
  have wq_cont: "\<And>E r p p'. continueSendReply E r p = Some p' \<Longrightarrow> waitingRequests p' = waitingRequests p"
    by (auto simp: continueSendReply_def wq_stat_incr Let_def split: bind_splits if_splits dest!: wq_enq)
  have wq_send: "\<And>E r m p p'. sendReply E r m p = Some p' \<Longrightarrow> waitingRequests p' = waitingRequests p"
    by (auto simp: sendReply_def Let_def split: bind_splits if_splits dest!: wq_cont)
  have wq_incref: "\<And>r p p'. proxy_request_incref r p = Some p' \<Longrightarrow> waitingRequests p' = waitingRequests p"
    by (auto simp: proxy_request_incref_def split: bind_splits if_splits)
  have wq_route: "\<And>E r p p'. routeHandlesProcessRequest E r p = Some p' \<Longrightarrow> waitingRequests p' = waitingRequests p"
    by (auto simp: routeHandlesProcessRequest_def split: bind_splits if_splits option.splits
             dest!: wq_send wq_incref)
  have wq_cmd: "\<And>p operation. waitingRequests (cmd_stat_incr p operation) = waitingRequests p"
    by (simp add: cmd_stat_incr_def wq_stat_incr split: mc_op_t.splits)
  have wq_process: "\<And>E r p p'. processRequest E r p = Some p' \<Longrightarrow> waitingRequests p' = waitingRequests p"
    by (auto simp: processRequest_def Let_def wq_stat_incr wq_cmd split: bind_splits if_splits
             dest!: wq_route)
  have nested:
    "pump_proxy_request_decref_dom (Inl (E, p)) \<Longrightarrow>
        (\<forall>p'. pump E p = Some p' \<longrightarrow> length (waitingRequests p') \<le> length (waitingRequests p))"
    "pump_proxy_request_decref_dom (Inr (E', r, q)) \<Longrightarrow>
        (\<forall>p'. proxy_request_decref E' r q = Some p' \<longrightarrow>
              length (waitingRequests p') \<le> length (waitingRequests q))" for E p E' r q
  proof (induct E p and E' r q rule: pump_proxy_request_decref.pinduct)
    case (1 E p)
    show ?case
    proof (intro allI impI)
      fix p' assume run: "pump E p = Some p'"
      show "length (waitingRequests p') \<le> length (waitingRequests p)"
      proof (cases "numRequestsProcessing p < proxy_max_inflight_requests (opts p) \<and>
                    waitingRequests p \<noteq> []")
        case False
        with run pump.psimps[OF 1(1)] show ?thesis by auto
      next
        case True
        let ?x = "hd (waitingRequests p)"
        let ?xb = "stat_decr (p\<lparr>waitingRequests := tl (waitingRequests p)\<rparr>) proxy_reqs_waiting_stat 1"
        from run True pump.psimps[OF 1(1)] obtain a aa where
          a: "processRequest E ?x ?xb = Some a" and aa: "proxy_request_decref E ?x a = Some aa"
          and p': "pump E aa = Some p'"
          by (auto simp: Let_def split: bind_splits)
        from 1(2)[OF True refl refl refl a] aa
        have "length (waitingRequests aa) \<le> length (waitingRequests a)" by blast
        moreover from 1(3)[OF True refl refl refl a aa] p'
        have "length (waitingRequests p') \<le> length (waitingRequests aa)" by blast
        moreover from wq_process[OF a]
        have "length (waitingRequests a) \<le> length (waitingRequests p)"
          by (simp add: wq_stat_decr)
        ultimately show ?thesis by linarith
      qed
    qed
  next
    case (2 E preq p)
    show ?case
    proof (intro allI impI)
      fix p' assume run: "proxy_request_decref E preq p = Some p'"
      from run proxy_request_decref.psimps[OF 2(1)] obtain a where a: "heap p preq = Some a"
        and pos: "\<not> refcount a \<le> 0"
        by (auto split: bind_splits if_splits)
      from run proxy_request_decref.psimps[OF 2(1)] a pos obtain aa where
        aa: "(if refcount a = 1 \<and> sync (opts p) \<and> reply_state a = REPLY_STATE_REPLIED
              then enqueueReply preq p else Some p) = Some aa"
        by (auto split: bind_splits)
      define x where "x = (if refcount a = 1 \<and> has_reqComplete a
            then aa\<lparr>completedRequests := completedRequests aa @ [preq]\<rparr> else aa)"
      define xa where "xa = x\<lparr>heap := (heap x)(preq \<mapsto> a\<lparr>refcount := refcount a - 1\<rparr>)\<rparr>"
      have wxa: "waitingRequests xa = waitingRequests p"
        using aa by (auto simp: xa_def x_def split: if_splits dest!: wq_enq)
      show "length (waitingRequests p') \<le> length (waitingRequests p)"
      proof (cases "0 < refcount a - 1")
        case True
        with run proxy_request_decref.psimps[OF 2(1)] a pos aa have "p' = xa"
          by (simp add: Let_def xa_def x_def)
        with wxa show ?thesis by simp
      next
        case False
        show ?thesis
        proof (cases "processing a")
          case False
          with run proxy_request_decref.psimps[OF 2(1)] a pos aa \<open>\<not> 0 < refcount a - 1\<close>
          have "p' = stat_decr (xa\<lparr>heap := (heap xa)(preq := None)\<rparr>) proxy_request_num_outstanding_stat 1"
            by (simp add: Let_def xa_def x_def)
          with wxa show ?thesis by (simp add: wq_stat_decr)
        next
          case True
          let ?arg = "stat_decr (xa\<lparr>numRequestsProcessing := numRequestsProcessing xa - 1\<rparr>)
                        proxy_reqs_processing_stat 1"
          from run proxy_request_decref.psimps[OF 2(1)] a pos aa \<open>\<not> 0 < refcount a - 1\<close> True
          obtain p4 where p4: "pump E ?arg = Some p4"
            and p': "p' = stat_decr (p4\<lparr>heap := (heap p4)(preq := None)\<rparr>) proxy_request_num_outstanding_stat 1"
            by (auto simp: Let_def xa_def x_def split: bind_splits)
          from 2(2)[OF a pos aa x_def xa_def \<open>\<not> 0 < refcount a - 1\<close> True] p4
          have "length (waitingRequests p4) \<le> length (waitingRequests ?arg)" by blast
          with p' wxa show ?thesis by (simp add: wq_stat_decr)
        qed
      qed
    qed
  qed
  show ?thesis
  proof (relation "measure (\<lambda>x. case x of Inl (E, p) \<Rightarrow> 2 * length (waitingRequests p)
                                  | Inr (E, r, p) \<Rightarrow> 2 * length (waitingRequests p) + 1)")
    show "wf (measure (\<lambda>x. case x of Inl (E, p) \<Rightarrow> 2 * length (waitingRequests p)
                                  | Inr (E, r, p) \<Rightarrow> 2 * length (waitingRequests p) + 1))" by simp
  next
    fix E p x xa xb a
    assume "numRequestsProcessing p < proxy_max_inflight_requests (opts p) \<and> waitingRequests p \<noteq> []"
      "x = hd (waitingRequests p)" "xa = p\<lparr>waitingRequests := tl (waitingRequests p)\<rparr>"
      "xb = stat_decr xa proxy_reqs_waiting_stat 1" "processRequest E x xb = Some a"
    then show "(Inr (E, x, a), Inl (E, p)) \<in> measure (\<lambda>x. case x of Inl (E, p) \<Rightarrow> 2 * length (waitingRequests p)
                                  | Inr (E, r, p) \<Rightarrow> 2 * length (waitingRequests p) + 1)"
      by (auto dest!: wq_process simp: wq_stat_decr) (cases "waitingRequests p"; simp)
  next
    fix E p x xa xb a aa
    assume "numRequestsProcessing p < proxy_max_inflight_requests (opts p) \<and> waitingRequests p \<noteq> []"
      "x = hd (waitingRequests p)" "xa = p\<lparr>waitingRequests := tl (waitingRequests p)\<rparr>"
      "xb = stat_decr xa proxy_reqs_waiting_stat 1" "processRequest E x xb = Some a"
      "proxy_request_decref E x a = Some aa" "pump_proxy_request_decref_dom (Inr (E, x, a))"
    then show "(Inl (E, aa), Inl (E, p)) \<in> measure (\<lambda>x. case x of Inl (E, p) \<Rightarrow> 2 * length (waitingRequests p)
                                  | Inr (E, r, p) \<Rightarrow> 2 * length (waitingRequests p) + 1)"
      using nested(2)[of E x a]
      by (auto dest!: wq_process simp: wq_stat_decr) (cases "waitingRequests p"; simp)
  next
    fix E preq p a aa x xa
    assume "heap p preq = Some a" "\<not> refcount a \<le> 0"
      "(if refcount a = 1 \<and> sync (opts p) \<and> reply_state a = REPLY_STATE_REPLIED
            then enqueueReply preq p else Some p) = Some aa"
      "x = (if refcount a = 1 \<and> has_reqComplete a
            then aa\<lparr>completedRequests := completedRequests aa @ [preq]\<rparr> else aa)"
      "xa = x\<lparr>heap := (heap x)(preq \<mapsto> a\<lparr>refcount := refcount a - 1\<rparr>)\<rparr>"
      "\<not> 0 < refcount a - 1" "processing a"
    then show "(Inl (E, stat_decr (xa\<lparr>numRequestsProcessing := numRequestsProcessing xa - 1\<rparr>)
                proxy_reqs_processing_stat 1), Inr (E, preq, p)) \<in> measure (\<lambda>x. case x of Inl (E, p) \<Rightarrow> 2 * length (waitingRequests p)
                                  | Inr (E, r, p) \<Rightarrow> 2 * length (waitingRequests p) + 1)"
      by (auto simp: wq_stat_decr split: if_splits dest!: wq_enq)
  qed
qed

declare pump.simps [simp del] proxy_request_decref.simps [simp del]

subsection \<open>Events on one worker\<close>

text \<open>
  The main-context half of a fiber task: the reply computed on the fiber is handed to
  \<^verbatim>\<open>sendReply\<close>, then the cleanup function drops the reference taken at submission.
  An exception that leaves the task ends the run.
\<close>

definition runFiberTask ::
  "externals \<Rightarrow> (mc_msg_t \<Rightarrow> thrown + mc_msg_t) \<Rightarrow> preq_ptr \<Rightarrow> proxy_t \<Rightarrow> proxy_t option" where
  "runFiberTask E dispatchMcMsg preq p =
     (if preq \<notin> set (fiberTasks p) then None
      else do {
        q \<leftarrow> heap p preq;
        case fiber_task dispatchMcMsg q of
          Inl e \<Rightarrow> None
        | Inr msg \<Rightarrow> do {
            p1 \<leftarrow> sendReply E preq msg (p\<lparr>fiberTasks := remove1 preq (fiberTasks p)\<rparr>);
            proxy_request_decref E preq p1
          }
      })"

text \<open>
  What can happen to a worker: a request is constructed at a free address and handed to
  \<^verbatim>\<open>dispatchRequest\<close>; a holder takes or drops a reference; a fiber task finishes. A run
  that yields \<open>None\<close> is one in which the worker aborted or an event could not happen.
\<close>

datatype event =
    EvDispatch preq_ptr mc_msg_t bool nat
  | EvIncref preq_ptr
  | EvDecref preq_ptr
  | EvFiber preq_ptr "mc_msg_t \<Rightarrow> thrown + mc_msg_t"

fun step :: "externals \<Rightarrow> event \<Rightarrow> proxy_t \<Rightarrow> proxy_t option" where
  "step E (EvDispatch preq req reqComplete senderId) p =
     (if heap p preq \<noteq> None then None
      else case new_proxy_request_t E p req reqComplete senderId of
             Inl e \<Rightarrow> Some p
           | Inr (q, p1) \<Rightarrow> dispatchRequest E preq (p1\<lparr>heap := (heap p1)(preq \<mapsto> q)\<rparr>))"
| "step E (EvIncref preq) p = proxy_request_incref preq p"
| "step E (EvDecref preq) p = proxy_request_decref E preq p"
| "step E (EvFiber preq dispatchMcMsg) p = runFiberTask E dispatchMcMsg preq p"

fun run :: "externals \<Rightarrow> event list \<Rightarrow> proxy_t \<Rightarrow> proxy_t option" where
  "run E [] p = Some p"
| "run E (e # es) p = do { p1 \<leftarrow> step E e p; run E es p1 }"

subsection \<open>Reconfiguration: \<^verbatim>\<open>proxy_config_swap\<close> and \<^verbatim>\<open>router_configure\<close>\<close>

record mcrouter_t =
  router_opts :: McrouterOptions
  proxy_threads :: "proxy_t list"

text \<open>
  Modelled from the spec: \<^verbatim>\<open>ProxyDestinationMap::markAllAsUnused\<close>, which this file calls
  and does not define, marks the entries of the worker's destination map as unused.
\<close>

definition markAllAsUnused :: "proxy_t \<Rightarrow> proxy_t" where
  "markAllAsUnused p = p\<lparr>destinationMap := map (\<lambda>(d, used). (d, False)) (destinationMap p)\<rparr>"

definition swapConfig :: "proxy_t \<Rightarrow> ProxyConfig \<Rightarrow> ProxyConfig option \<times> proxy_t" where
  "swapConfig p newConfig = (config p, p\<lparr>config := Some newConfig\<rparr>)"

fun count_servers :: "proxy_t \<Rightarrow> (string \<times> pool_type_t \<times> nat) list \<Rightarrow> proxy_t" where
  "count_servers p [] = p"
| "count_servers p ((name, ty, nclients) # pools) =
     count_servers
       (case ty of
          REGULAR_POOL \<Rightarrow> stat_incr p num_servers_stat (of_nat nclients)
        | REGIONAL_POOL \<Rightarrow> stat_incr p num_servers_stat (of_nat nclients)
        | _ \<Rightarrow> p)
       pools"

text \<open>\<open>now\<close> is what \<^verbatim>\<open>time(nullptr)\<close> returns.\<close>

definition proxy_config_swap :: "64 word \<Rightarrow> proxy_t \<Rightarrow> ProxyConfig \<Rightarrow> proxy_t" where
  "proxy_config_swap now proxy cfg =
     (let p1 = stat_set_uint64 proxy num_servers_stat 0;
          p2 = count_servers p1 (poolsMap cfg);
          (oldConfig, p3) = swapConfig p2 cfg;
          p4 = stat_set_uint64 p3 config_last_success_stat now
      in case oldConfig of
           None \<Rightarrow> p4
         | Some old \<Rightarrow>
             if \<not> sync (opts p4)
             then p4\<lparr>request_queue := request_queue p4 @ [request_type_old_config old]\<rparr>
             else p4)"

text \<open>
  The first loop of \<^verbatim>\<open>router_configure\<close>, over the worker indices in increasing order.
  The builder is an object of a class defined outside this file, here a value of a type
  \<open>'b\<close>. Its method \<^verbatim>\<open>buildConfig\<close> is a parameter: it receives the builder and the
  worker, which the source passes as a pointer, and yields a snapshot or an exception,
  together with the worker and the builder as the call leaves them. Reading
  \<^verbatim>\<open>proxy_threads[i]\<close> beyond the vector is undefined behaviour.
\<close>

datatype build_result =
    BuildDone "proxy_t list" "ProxyConfig list"
  | BuildReturn0 "proxy_t list"
  | BuildEscaped thrown "proxy_t list"
  | BuildUndefined

fun build_loop ::
  "('b \<Rightarrow> proxy_t \<Rightarrow> (thrown + ProxyConfig) \<times> proxy_t \<times> 'b) \<Rightarrow> 'b \<Rightarrow> nat list
     \<Rightarrow> proxy_t list \<Rightarrow> ProxyConfig list \<Rightarrow> build_result" where
  "build_loop buildConfig builder [] threads newConfigs = BuildDone threads newConfigs"
| "build_loop buildConfig builder (i # is) threads newConfigs =
     (if length threads \<le> i then BuildUndefined
      else
        let proxy = threads ! i in
        if default_route proxy = [] then BuildReturn0 threads
        else
          case buildConfig builder (markAllAsUnused proxy) of
            (res, proxy1, builder1) \<Rightarrow>
              let threads1 = threads[i := proxy1]
              in case res of
                   Inl (std_exception what) \<Rightarrow> BuildReturn0 threads1
                 | Inl other_exception \<Rightarrow> BuildEscaped other_exception threads1
                 | Inr cfg \<Rightarrow> build_loop buildConfig builder1 is threads1 (newConfigs @ [cfg]))"

fun swap_loop :: "64 word \<Rightarrow> nat list \<Rightarrow> proxy_t list \<Rightarrow> ProxyConfig list \<Rightarrow> proxy_t list option" where
  "swap_loop now [] threads newConfigs = Some threads"
| "swap_loop now (i # is) threads newConfigs =
     (if length threads \<le> i \<or> length newConfigs \<le> i then None
      else swap_loop now is (threads[i := proxy_config_swap now (threads ! i) (newConfigs ! i)])
             newConfigs)"

datatype configure_result =
    Returned int mcrouter_t
  | Escaped thrown mcrouter_t
  | UndefinedBehaviour

text \<open>
  \<^verbatim>\<open>router_configure(router, input)\<close>. The constructor of the builder is the parameter
  \<open>newBuilder\<close>; it receives the options, the default route, region and cluster of worker 0
  and the configuration text, and yields the builder or throws. The final \<^verbatim>\<open>LOG_IF\<close>
  evaluates its operands, which read \<^verbatim>\<open>newConfigs[0]\<close>, unless the option
  \<^verbatim>\<open>constantly_reload_configs\<close> is set; on an empty vector that read is undefined
  behaviour.
\<close>

definition router_configure ::
  "(McrouterOptions \<Rightarrow> string \<Rightarrow> string \<Rightarrow> string \<Rightarrow> string \<Rightarrow> thrown + 'b)
     \<Rightarrow> ('b \<Rightarrow> proxy_t \<Rightarrow> (thrown + ProxyConfig) \<times> proxy_t \<times> 'b)
     \<Rightarrow> 64 word \<Rightarrow> mcrouter_t \<Rightarrow> string \<Rightarrow> configure_result" where
  "router_configure newBuilder buildConfig now router input =
     (let proxyCount = num_proxies (router_opts router) in
      case proxy_threads router of
        [] \<Rightarrow> UndefinedBehaviour
      | p0 # _ \<Rightarrow>
          (case newBuilder (router_opts router) (default_route p0) (default_region p0)
                  (default_cluster p0) input of
             Inl (std_exception what) \<Rightarrow> Returned 0 router
           | Inl other_exception \<Rightarrow> Escaped other_exception router
           | Inr builder \<Rightarrow>
               (case build_loop buildConfig builder [0..<proxyCount] (proxy_threads router) [] of
                  BuildUndefined \<Rightarrow> UndefinedBehaviour
                | BuildReturn0 threads \<Rightarrow> Returned 0 (router\<lparr>proxy_threads := threads\<rparr>)
                | BuildEscaped e threads \<Rightarrow> Escaped e (router\<lparr>proxy_threads := threads\<rparr>)
                | BuildDone threads newConfigs \<Rightarrow>
                    (case swap_loop now [0..<proxyCount] threads newConfigs of
                       None \<Rightarrow> UndefinedBehaviour
                     | Some threads1 \<Rightarrow>
                         if \<not> constantly_reload_configs (router_opts router) \<and> newConfigs = []
                         then UndefinedBehaviour
                         else Returned 1 (router\<lparr>proxy_threads := threads1\<rparr>)))))"

text \<open>
  What the builder yields when it is handed the workers one after the other, each with
  its destinations marked unused: for every worker the snapshot or the exception, and
  the worker as the call leaves it.
\<close>

fun builds ::
  "('b \<Rightarrow> proxy_t \<Rightarrow> (thrown + ProxyConfig) \<times> proxy_t \<times> 'b) \<Rightarrow> 'b \<Rightarrow> proxy_t list
     \<Rightarrow> ((thrown + ProxyConfig) \<times> proxy_t) list" where
  "builds buildConfig builder [] = []"
| "builds buildConfig builder (proxy # proxies) =
     (case buildConfig builder (markAllAsUnused proxy) of
        (res, proxy1, builder1) \<Rightarrow> (res, proxy1) # builds buildConfig builder1 proxies)"

subsection \<open>The shadowing policy: \<^verbatim>\<open>proxy_pool_shadowing_policy_t::Data::Data\<close>\<close>
























subsection \<open>Well-formed waiters and the requests in flight\<close>

text \<open>
  The waiters as \<^verbatim>\<open>dispatchRequest\<close> leaves them: each is queued once, is alive, holds
  at least the reference taken at queuing time, is not yet being processed, and its
  operation is routed on a fiber.
\<close>

definition waiters_ready :: "proxy_t \<Rightarrow> bool" where
  "waiters_ready p \<longleftrightarrow>
     distinct (waitingRequests p) \<and>
     list_all (\<lambda>r. case heap p r of
                      None \<Rightarrow> False
                    | Some q \<Rightarrow> \<not> processing q \<and> 0 < refcount q \<and>
                                op (orig_req q) \<noteq> mc_op_stats \<and>
                                op (orig_req q) \<noteq> mc_op_get_service_info)
       (waitingRequests p)"

text \<open>The number of waiters one call of the pump admits.\<close>

definition pump_admits :: "proxy_t \<Rightarrow> nat" where
  "pump_admits p =
     min (length (waitingRequests p))
         (unat (proxy_max_inflight_requests (opts p)) - unat (numRequestsProcessing p))"

text \<open>The operation under which the constructor stores a request.\<close>

definition routed_op :: "mc_msg_t \<Rightarrow> mc_op_t" where
  "routed_op req =
     (if op req = mc_op_get \<and>
         strncmp_eq (key req) kInternalGetPrefix (length kInternalGetPrefix)
      then mc_op_get_service_info else op req)"

fun admits_limited :: "event \<Rightarrow> bool" where
  "admits_limited (EvDispatch preq req reqComplete senderId) =
     (routed_op req \<noteq> mc_op_stats \<and> routed_op req \<noteq> mc_op_version \<and>
      routed_op req \<noteq> mc_op_get_service_info)"
| "admits_limited e = True"

text \<open>The requests that are alive and being processed.\<close>

definition live_processing :: "proxy_t \<Rightarrow> preq_ptr set" where
  "live_processing p = {r. \<exists>q. heap p r = Some q \<and> processing q \<and> 0 < refcount q}"

text \<open>
  The invariant of a worker with in-flight limit \<open>M\<close> that admits rate-limited requests
  only: the counter is the number of requests that are alive and being processed, and it
  is at most \<open>M\<close>.
\<close>

definition inflight_inv :: "64 word \<Rightarrow> proxy_t \<Rightarrow> bool" where
  "inflight_inv M p \<longleftrightarrow>
     proxy_max_inflight_requests (opts p) = M \<and> 0 < M \<and>
     finite (dom (heap p)) \<and>
     unat (numRequestsProcessing p) = card (live_processing p) \<and>
     numRequestsProcessing p \<le> M \<and>
     (\<forall>r q. heap p r = Some q \<longrightarrow>
        op (orig_req q) \<noteq> mc_op_stats \<and> op (orig_req q) \<noteq> mc_op_version \<and>
        op (orig_req q) \<noteq> mc_op_get_service_info)"

text \<open>A request without a reference is left as it is.\<close>

definition dead_kept :: "proxy_t \<Rightarrow> proxy_t \<Rightarrow> bool" where
  "dead_kept p p' \<longleftrightarrow> (\<forall>x qx. heap p x = Some qx \<and> refcount qx \<le> 0 \<longrightarrow> heap p' x = Some qx)"

subsection \<open>Seed scenarios\<close>

text \<open>
  Concrete values for the scenarios: a request message, the options of a worker with a
  given in-flight limit, and an instance of the functions defined elsewhere.
\<close>

definition request_msg :: "mc_op_t \<Rightarrow> string \<Rightarrow> mc_msg_t" where
  "request_msg operation k = \<lparr>op = operation, key = k, result = mc_res_unknown, msg_value = []\<rparr>"

definition scenario_opts :: "64 word \<Rightarrow> McrouterOptions" where
  "scenario_opts m = \<lparr>proxy_max_inflight_requests = m, sync = False,
                      opts_default_route = ''/prn/cluster01/'', num_proxies = 2,
                      constantly_reload_configs = False\<rparr>"

definition scenario_externals :: externals where
  "scenario_externals =
     \<lparr>mc_client_req_is_valid =
        (\<lambda>req. op req = mc_op_version \<or> op req = mc_op_stats \<or> key req \<noteq> []),
      mc_res_is_err = (\<lambda>r. r = mc_res_local_error),
      stats_reply = (\<lambda>p k. \<lparr>op = mc_op_unknown, key = [], result = mc_res_code 0,
                             msg_value = ''stats''\<rparr>)\<rparr>"

definition scenario_request :: "mc_op_t \<Rightarrow> string \<Rightarrow> proxy_request_t" where
  "scenario_request operation k =
     \<lparr>orig_req = request_msg operation k, reply = None, reply_state = REPLY_STATE_NO_REPLY,
      delay_reply = 0, failover_disabled = 0, refcount = 1, sender_id = 0,
      legacy_get_service_info = False, has_reqComplete = False, processing = False\<rparr>"




definition scenario_config :: ProxyConfig where
  "scenario_config = \<lparr>poolsMap = [(''main'', REGULAR_POOL, 3)], clientsMapSize = 3,
                       configMd5Digest = ''d41d8cd9''\<rparr>"

definition scenario_builder ::
  "McrouterOptions \<Rightarrow> string \<Rightarrow> string \<Rightarrow> string \<Rightarrow> string \<Rightarrow> thrown + nat" where
  "scenario_builder options route region cluster input = Inr 0"

definition scenario_buildConfig ::
  "nat \<Rightarrow> proxy_t \<Rightarrow> (thrown + ProxyConfig) \<times> proxy_t \<times> nat" where
  "scenario_buildConfig calls proxy =
     (Inr scenario_config,
      proxy\<lparr>destinationMap := map (\<lambda>(d, used). (d, True)) (destinationMap proxy)\<rparr>,
      calls + 1)"





text \<open>
  A worker with limit 2, nothing in flight and three requests waiting, each holding the
  reference taken at queuing time.
\<close>

definition scenario_queued :: proxy_t where
  "scenario_queued =
     (proxy_t_init (scenario_opts 2))
       \<lparr>waitingRequests := [3, 4, 5],
        stats := (\<lambda>s. if s = proxy_reqs_waiting_stat then 3 else 0),
        heap := [3 \<mapsto> scenario_request mc_op_set ''a'',
                 4 \<mapsto> scenario_request mc_op_set ''b'',
                 5 \<mapsto> scenario_request mc_op_set ''c'']\<rparr>"

text \<open>
  The worker that the constructor builds from the scenario options, and a root route
  handle that answers every request.
\<close>

definition scenario_proxy :: "64 word \<Rightarrow> proxy_t" where
  "scenario_proxy m =
     (proxy_t_init (scenario_opts m))
       \<lparr>default_route := ''/prn/cluster01/'', default_region := ''prn'',
        default_cluster := ''cluster01''\<rparr>"

definition scenario_route :: "mc_msg_t \<Rightarrow> thrown + mc_msg_t" where
  "scenario_route req = Inr (req\<lparr>result := mc_res_code 1\<rparr>)"

text \<open>
  Two root route handles that throw: the first a \<^verbatim>\<open>std::exception\<close> with a text, the
  second a value of a type that is not derived from \<^verbatim>\<open>std::exception\<close>. And a worker
  whose request 1 has been handed to a fiber task.
\<close>

definition scenario_failing_route :: "mc_msg_t \<Rightarrow> thrown + mc_msg_t" where
  "scenario_failing_route req = Inl (std_exception ''upstream down'')"

definition scenario_throwing_route :: "mc_msg_t \<Rightarrow> thrown + mc_msg_t" where
  "scenario_throwing_route req = Inl other_exception"

definition scenario_routing :: proxy_t where
  "scenario_routing =
     (proxy_t_init (scenario_opts 2))
       \<lparr>heap := [1 \<mapsto> (scenario_request mc_op_set ''k'')\<lparr>refcount := 2, processing := True\<rparr>],
        numRequestsProcessing := 1, fiberTasks := [1]\<rparr>"

section \<open>Properties\<close>

subsection \<open>Auxiliary facts\<close>

lemma c_str_no_nul: "CHR 0x00 \<notin> set s \<Longrightarrow> c_str s = s"
  by (auto simp: c_str_def)

lemma strncmp_prefix:
  "strncmp_eq k kInternalGetPrefix (length kInternalGetPrefix) \<longleftrightarrow>
   take (length kInternalGetPrefix) k = kInternalGetPrefix"
proof -
  let ?P = "\<lambda>c. c \<noteq> CHR 0x00"
  let ?n = "length kInternalGetPrefix"
  have pre: "take ?n (c_str kInternalGetPrefix) = kInternalGetPrefix"
    by (simp add: c_str_def kInternalGetPrefix_def)
  have nn: "\<forall>c\<in>set kInternalGetPrefix. ?P c"
    by (simp add: kInternalGetPrefix_def)
  show ?thesis
  proof
    assume "strncmp_eq k kInternalGetPrefix ?n"
    then have eq: "take ?n (takeWhile ?P k) = kInternalGetPrefix"
      unfolding strncmp_eq_def pre by (simp add: c_str_def)
    from arg_cong[OF eq, of length] have le: "?n \<le> length (takeWhile ?P k)"
      by simp
    have "take ?n (takeWhile ?P k) = take ?n (take (length (takeWhile ?P k)) k)"
      using takeWhile_eq_take[of ?P k] by simp
    also have "\<dots> = take ?n k" using le by (simp add: min_def)
    finally show "take ?n k = kInternalGetPrefix" using eq by simp
  next
    assume t: "take ?n k = kInternalGetPrefix"
    have k: "kInternalGetPrefix @ drop ?n k = k"
      using append_take_drop_id[of ?n k] by (simp only: t)
    have "takeWhile ?P (kInternalGetPrefix @ drop ?n k) = kInternalGetPrefix @ takeWhile ?P (drop ?n k)"
      using nn by simp
    then have "takeWhile ?P k = kInternalGetPrefix @ takeWhile ?P (drop ?n k)"
      by (simp only: k)
    then show "strncmp_eq k kInternalGetPrefix ?n"
      unfolding strncmp_eq_def pre by (simp add: c_str_def)
  qed
qed

lemma continueSendReply_effect:
  assumes "continueSendReply E r p = Some p'"
  shows "\<exists>q. heap p r = Some q \<and> reply q \<noteq> None \<and>
             heap p' r = Some (q\<lparr>reply_state := REPLY_STATE_REPLIED\<rparr>)"
  using assms
  by (auto simp: continueSendReply_def enqueueReply_def stat_incr_def Let_def
           split: bind_splits if_splits)

lemma sendReply_stores:
  assumes "sendReply E r m p = Some p'"
  shows "\<exists>q. heap p r = Some q \<and> reply q = None \<and>
           heap p' r = Some (q\<lparr>reply := Some (m\<lparr>op := (if legacy_get_service_info q then mc_op_get
                                                          else op (orig_req q))\<rparr>),
                                reply_state := (if reply_state q \<noteq> REPLY_STATE_NO_REPLY then reply_state q
                                                else if delay_reply q = 0 then REPLY_STATE_REPLIED
                                                else REPLY_STATE_REPLY_DELAYED)\<rparr>)"
proof -
  from assms obtain q where q: "heap p r = Some q" and none: "reply q = None"
    by (auto simp: sendReply_def split: bind_splits if_splits)
  define q1 where "q1 = q\<lparr>reply := Some (m\<lparr>op := (if legacy_get_service_info q then mc_op_get
                                                     else op (orig_req q))\<rparr>)\<rparr>"
  define p1 where "p1 = p\<lparr>heap := (heap p)(r \<mapsto> q1)\<rparr>"
  have run: "(if reply_state q \<noteq> REPLY_STATE_NO_REPLY then Some p1
       else if delay_reply q = 0 then continueSendReply E r p1
       else Some (p1\<lparr>heap := (heap p1)(r \<mapsto> q1\<lparr>reply_state := REPLY_STATE_REPLY_DELAYED\<rparr>)\<rparr>)) = Some p'"
    using assms q none by (simp add: sendReply_def Let_def q1_def p1_def split del: if_split cong: if_cong)
  show ?thesis
  proof (cases "reply_state q \<noteq> REPLY_STATE_NO_REPLY")
    case True
    with run have "p' = p1" by simp
    with q none True show ?thesis by (simp add: p1_def q1_def)
  next
    case False
    note nr = this
    show ?thesis
    proof (cases "delay_reply q = 0")
      case True
      with run nr have "continueSendReply E r p1 = Some p'" by simp
      from continueSendReply_effect[OF this]
      have "heap p' r = Some (q1\<lparr>reply_state := REPLY_STATE_REPLIED\<rparr>)"
        by (auto simp: p1_def)
      with q none nr True show ?thesis by (simp add: q1_def)
    next
      case False
      with run nr have "p' = p1\<lparr>heap := (heap p1)(r \<mapsto> q1\<lparr>reply_state := REPLY_STATE_REPLY_DELAYED\<rparr>)\<rparr>"
        by simp
      with q none nr False show ?thesis by (simp add: p1_def q1_def)
    qed
  qed
qed

lemma continueSendReply_total:
  assumes "heap p r = Some q" and "reply q = Some rep"
  shows "\<exists>p'. continueSendReply E r p = Some p' \<and>
              heap p' = (heap p)(r \<mapsto> q\<lparr>reply_state := REPLY_STATE_REPLIED\<rparr>)"
  using assms
  by (simp add: continueSendReply_def enqueueReply_def stat_incr_def Let_def)

lemma sendReply_total:
  assumes "heap p r = Some q" and "reply q = None"
  shows "\<exists>p'. sendReply E r m p = Some p' \<and>
           heap p' = (heap p)(r \<mapsto>
              q\<lparr>reply := Some (m\<lparr>op := (if legacy_get_service_info q then mc_op_get
                                         else op (orig_req q))\<rparr>),
                reply_state := (if reply_state q \<noteq> REPLY_STATE_NO_REPLY then reply_state q
                                else if delay_reply q = 0 then REPLY_STATE_REPLIED
                                else REPLY_STATE_REPLY_DELAYED)\<rparr>)"
proof -
  define q1 where "q1 = q\<lparr>reply := Some (m\<lparr>op := (if legacy_get_service_info q then mc_op_get
                                                     else op (orig_req q))\<rparr>)\<rparr>"
  define p1 where "p1 = p\<lparr>heap := (heap p)(r \<mapsto> q1)\<rparr>"
  have run: "sendReply E r m p =
      (if reply_state q \<noteq> REPLY_STATE_NO_REPLY then Some p1
       else if delay_reply q = 0 then continueSendReply E r p1
       else Some (p1\<lparr>heap := (heap p1)(r \<mapsto> q1\<lparr>reply_state := REPLY_STATE_REPLY_DELAYED\<rparr>)\<rparr>))"
    using assms by (simp add: sendReply_def Let_def q1_def p1_def split del: if_split cong: if_cong)
  show ?thesis
  proof (cases "reply_state q \<noteq> REPLY_STATE_NO_REPLY")
    case True
    then show ?thesis unfolding run by (simp add: p1_def q1_def)
  next
    case False
    note nr = this
    show ?thesis
    proof (cases "delay_reply q = 0")
      case True
      have "heap p1 r = Some q1" "reply q1 = Some (m\<lparr>op := (if legacy_get_service_info q then mc_op_get
                                                     else op (orig_req q))\<rparr>)"
        by (simp_all add: p1_def q1_def)
      from continueSendReply_total[OF this, of E]
      obtain p' where "continueSendReply E r p1 = Some p'"
        "heap p' = (heap p1)(r \<mapsto> q1\<lparr>reply_state := REPLY_STATE_REPLIED\<rparr>)" by blast
      with nr True show ?thesis unfolding run by (simp add: p1_def q1_def)
    next
      case False
      with nr show ?thesis unfolding run by (simp add: p1_def q1_def)
    qed
  qed
qed

lemma continueSendReply_frame:
  assumes "continueSendReply E r p = Some p'"
  shows "\<exists>q. heap p r = Some q \<and>
           heap p' = (heap p)(r \<mapsto> q\<lparr>reply_state := REPLY_STATE_REPLIED\<rparr>) \<and>
           opts p' = opts p \<and> numRequestsProcessing p' = numRequestsProcessing p \<and>
           waitingRequests p' = waitingRequests p \<and> fiberTasks p' = fiberTasks p"
  using assms
  by (auto simp: continueSendReply_def enqueueReply_def stat_incr_def Let_def
           split: bind_splits if_splits)

lemma sendReply_frame:
  assumes "sendReply E r m p = Some p'"
  shows "\<exists>q q'. heap p r = Some q \<and> heap p' = (heap p)(r \<mapsto> q') \<and>
           processing q' = processing q \<and> refcount q' = refcount q \<and>
           orig_req q' = orig_req q \<and>
           opts p' = opts p \<and> numRequestsProcessing p' = numRequestsProcessing p \<and>
           waitingRequests p' = waitingRequests p \<and> fiberTasks p' = fiberTasks p"
proof -
  from assms obtain q where q: "heap p r = Some q" and none: "reply q = None"
    by (auto simp: sendReply_def split: bind_splits if_splits)
  define q1 where "q1 = q\<lparr>reply := Some (m\<lparr>op := (if legacy_get_service_info q then mc_op_get
                                                     else op (orig_req q))\<rparr>)\<rparr>"
  define p1 where "p1 = p\<lparr>heap := (heap p)(r \<mapsto> q1)\<rparr>"
  have run: "(if reply_state q \<noteq> REPLY_STATE_NO_REPLY then Some p1
       else if delay_reply q = 0 then continueSendReply E r p1
       else Some (p1\<lparr>heap := (heap p1)(r \<mapsto> q1\<lparr>reply_state := REPLY_STATE_REPLY_DELAYED\<rparr>)\<rparr>)) = Some p'"
    using assms q none
    by (simp add: sendReply_def Let_def q1_def p1_def split del: if_split cong: if_cong)
  have q1: "processing q1 = processing q" "refcount q1 = refcount q" "orig_req q1 = orig_req q"
    by (simp_all add: q1_def)
  show ?thesis
  proof (cases "reply_state q \<noteq> REPLY_STATE_NO_REPLY")
    case True
    with run have "p' = p1" by simp
    with q q1 show ?thesis by (auto simp: p1_def)
  next
    case False
    note nr = this
    show ?thesis
    proof (cases "delay_reply q = 0")
      case True
      with run nr have "continueSendReply E r p1 = Some p'" by simp
      from continueSendReply_frame[OF this]
      have "heap p' = (heap p)(r \<mapsto> q1\<lparr>reply_state := REPLY_STATE_REPLIED\<rparr>)"
        "opts p' = opts p" "numRequestsProcessing p' = numRequestsProcessing p"
        "waitingRequests p' = waitingRequests p" "fiberTasks p' = fiberTasks p"
        by (auto simp: p1_def)
      with q q1 show ?thesis
        by (intro exI[of _ q] exI[of _ "q1\<lparr>reply_state := REPLY_STATE_REPLIED\<rparr>"]) simp
    next
      case False
      with run nr have "p' = p1\<lparr>heap := (heap p1)(r \<mapsto> q1\<lparr>reply_state := REPLY_STATE_REPLY_DELAYED\<rparr>)\<rparr>"
        by simp
      with q q1 show ?thesis
        by (intro exI[of _ q] exI[of _ "q1\<lparr>reply_state := REPLY_STATE_REPLY_DELAYED\<rparr>"])
           (simp add: p1_def)
    qed
  qed
qed


subsection \<open>Admission\<close>

text \<open>
  C2. \<^verbatim>\<open>rateLimited\<close> answers false when the in-flight limit is 0; it answers false for
  every request whose operation is stats, version or get_service_info, whatever the load;
  and for every other request under a non-zero limit it answers false exactly when the
  FIFO of waiters is empty and fewer requests than the limit are being processed.
\<close>

theorem rateLimited_cases:
  "(proxy_max_inflight_requests (opts p) = 0 \<longrightarrow> \<not> rateLimited p preq) \<and>
   (op (orig_req preq) \<in> {mc_op_stats, mc_op_version, mc_op_get_service_info}
      \<longrightarrow> \<not> rateLimited p preq) \<and>
   (proxy_max_inflight_requests (opts p) \<noteq> 0 \<and>
    op (orig_req preq) \<notin> {mc_op_stats, mc_op_version, mc_op_get_service_info}
      \<longrightarrow> (\<not> rateLimited p preq \<longleftrightarrow>
             waitingRequests p = [] \<and>
             numRequestsProcessing p < proxy_max_inflight_requests (opts p)))"
  by (simp add: rateLimited_def)

theorem rateLimited_cases_witness:
  "\<not> rateLimited (proxy_t_init (scenario_opts 0)) (scenario_request mc_op_set ''k'') \<and>
   \<not> rateLimited ((proxy_t_init (scenario_opts 1))\<lparr>numRequestsProcessing := 1\<rparr>)
        (scenario_request mc_op_stats []) \<and>
   rateLimited ((proxy_t_init (scenario_opts 1))\<lparr>numRequestsProcessing := 1\<rparr>)
        (scenario_request mc_op_set ''k'') \<and>
   \<not> rateLimited (proxy_t_init (scenario_opts 1)) (scenario_request mc_op_set ''k'')"
  using rateLimited_cases [of "proxy_t_init (scenario_opts 0)" "scenario_request mc_op_set ''k''"]
        rateLimited_cases [of "(proxy_t_init (scenario_opts 1))\<lparr>numRequestsProcessing := 1\<rparr>"
                              "scenario_request mc_op_stats []"]
        rateLimited_cases [of "(proxy_t_init (scenario_opts 1))\<lparr>numRequestsProcessing := 1\<rparr>"
                              "scenario_request mc_op_set ''k''"]
        rateLimited_cases [of "proxy_t_init (scenario_opts 1)" "scenario_request mc_op_set ''k''"]
  by (simp add: proxy_t_init_def scenario_opts_def request_msg_def scenario_request_def)

subsection \<open>The reply latch\<close>

lemma proxy_on_continue_reply_error_effect:
  assumes "proxy_on_continue_reply_error E r p = Some p'"
  shows "\<exists>q. heap p r = Some q \<and>
             heap p' r = Some (if reply_state q = REPLY_STATE_REPLY_DELAYED \<and> delay_reply q = 1
                               then q\<lparr>reply_state := REPLY_STATE_REPLIED\<rparr> else q)"
proof -
  from assms obtain q where q: "heap p r = Some q"
    by (auto simp: proxy_on_continue_reply_error_def split: bind_splits)
  show ?thesis
  proof (cases "reply_state q = REPLY_STATE_REPLY_DELAYED \<and> delay_reply q = 1")
    case True
    with assms q have "continueSendReply E r p = Some p'"
      by (simp add: proxy_on_continue_reply_error_def)
    from continueSendReply_effect[OF this] q True show ?thesis by auto
  next
    case False
    with assms q have "p' = p"
      by (auto simp: proxy_on_continue_reply_error_def)
    with q False show ?thesis by auto
  qed
qed

lemma reply_edges:
  "(sendReply E r m p = Some p' \<longrightarrow>
      (\<exists>q q'. heap p r = Some q \<and> heap p' r = Some q' \<and>
         reply q = None \<and> reply q' \<noteq> None \<and> sendReply E r m2 p' = None \<and>
         ((reply_state q, reply_state q') \<in>
             {(REPLY_STATE_NO_REPLY, REPLY_STATE_REPLY_DELAYED),
              (REPLY_STATE_REPLY_DELAYED, REPLY_STATE_REPLIED),
              (REPLY_STATE_NO_REPLY, REPLY_STATE_REPLIED)} \<or>
          reply_state q' = reply_state q) \<and>
         (reply_state q = REPLY_STATE_NO_REPLY \<and> delay_reply q = 0 \<longrightarrow>
            reply_state q' = REPLY_STATE_REPLIED \<and>
            continueSendReply E r
              (p\<lparr>heap := (heap p)(r \<mapsto> q\<lparr>reply := reply q'\<rparr>)\<rparr>) = Some p') \<and>
         (reply_state q = REPLY_STATE_NO_REPLY \<and> 0 < delay_reply q \<longrightarrow>
            reply_state q' = REPLY_STATE_REPLY_DELAYED))) \<and>
   (continueSendReply E r p = Some p' \<longrightarrow>
      (\<exists>q q'. heap p r = Some q \<and> heap p' r = Some q' \<and> reply q' = reply q \<and>
         ((reply_state q, reply_state q') \<in>
             {(REPLY_STATE_NO_REPLY, REPLY_STATE_REPLY_DELAYED),
              (REPLY_STATE_REPLY_DELAYED, REPLY_STATE_REPLIED),
              (REPLY_STATE_NO_REPLY, REPLY_STATE_REPLIED)} \<or>
          reply_state q' = reply_state q))) \<and>
   (proxy_on_continue_reply_error E r p = Some p' \<longrightarrow>
      (\<exists>q q'. heap p r = Some q \<and> heap p' r = Some q' \<and> reply q' = reply q \<and>
         ((reply_state q, reply_state q') \<in>
             {(REPLY_STATE_NO_REPLY, REPLY_STATE_REPLY_DELAYED),
              (REPLY_STATE_REPLY_DELAYED, REPLY_STATE_REPLIED),
              (REPLY_STATE_NO_REPLY, REPLY_STATE_REPLIED)} \<or>
          reply_state q' = reply_state q)))"
proof (intro conjI impI)
  assume s: "sendReply E r m p = Some p'"
  from sendReply_stores[OF s] obtain q where q: "heap p r = Some q" "reply q = None"
    and q': "heap p' r = Some (q\<lparr>reply := Some (m\<lparr>op := (if legacy_get_service_info q then mc_op_get
                                                          else op (orig_req q))\<rparr>),
                                reply_state := (if reply_state q \<noteq> REPLY_STATE_NO_REPLY then reply_state q
                                                else if delay_reply q = 0 then REPLY_STATE_REPLIED
                                                else REPLY_STATE_REPLY_DELAYED)\<rparr>)"
    by blast
  let ?q' = "q\<lparr>reply := Some (m\<lparr>op := (if legacy_get_service_info q then mc_op_get
                                                          else op (orig_req q))\<rparr>),
                                reply_state := (if reply_state q \<noteq> REPLY_STATE_NO_REPLY then reply_state q
                                                else if delay_reply q = 0 then REPLY_STATE_REPLIED
                                                else REPLY_STATE_REPLY_DELAYED)\<rparr>"
  have again: "sendReply E r m2 p' = None"
    using q' by (simp add: sendReply_def)
  have edge: "(reply_state q, reply_state ?q') \<in>
             {(REPLY_STATE_NO_REPLY, REPLY_STATE_REPLY_DELAYED),
              (REPLY_STATE_REPLY_DELAYED, REPLY_STATE_REPLIED),
              (REPLY_STATE_NO_REPLY, REPLY_STATE_REPLIED)} \<or>
          reply_state ?q' = reply_state q"
    by (cases "reply_state q") simp_all
  have via: "reply_state q = REPLY_STATE_NO_REPLY \<and> delay_reply q = 0 \<longrightarrow>
            reply_state ?q' = REPLY_STATE_REPLIED \<and>
            continueSendReply E r (p\<lparr>heap := (heap p)(r \<mapsto> q\<lparr>reply := reply ?q'\<rparr>)\<rparr>) = Some p'"
    using s q by (auto simp: sendReply_def Let_def split del: if_split cong: if_cong)
  have del: "reply_state q = REPLY_STATE_NO_REPLY \<and> 0 < delay_reply q \<longrightarrow>
            reply_state ?q' = REPLY_STATE_REPLY_DELAYED"
    by simp
  show "\<exists>q q'. heap p r = Some q \<and> heap p' r = Some q' \<and>
         reply q = None \<and> reply q' \<noteq> None \<and> sendReply E r m2 p' = None \<and>
         ((reply_state q, reply_state q') \<in>
             {(REPLY_STATE_NO_REPLY, REPLY_STATE_REPLY_DELAYED),
              (REPLY_STATE_REPLY_DELAYED, REPLY_STATE_REPLIED),
              (REPLY_STATE_NO_REPLY, REPLY_STATE_REPLIED)} \<or>
          reply_state q' = reply_state q) \<and>
         (reply_state q = REPLY_STATE_NO_REPLY \<and> delay_reply q = 0 \<longrightarrow>
            reply_state q' = REPLY_STATE_REPLIED \<and>
            continueSendReply E r
              (p\<lparr>heap := (heap p)(r \<mapsto> q\<lparr>reply := reply q'\<rparr>)\<rparr>) = Some p') \<and>
         (reply_state q = REPLY_STATE_NO_REPLY \<and> 0 < delay_reply q \<longrightarrow>
            reply_state q' = REPLY_STATE_REPLY_DELAYED)"
    apply (rule exI[of _ q], rule exI[of _ ?q'])
    using q q' again edge via del by simp
next
  assume "continueSendReply E r p = Some p'"
  from continueSendReply_effect[OF this] obtain q where q: "heap p r = Some q"
    and q': "heap p' r = Some (q\<lparr>reply_state := REPLY_STATE_REPLIED\<rparr>)" by blast
  have "(reply_state q, REPLY_STATE_REPLIED) \<in>
             {(REPLY_STATE_NO_REPLY, REPLY_STATE_REPLY_DELAYED),
              (REPLY_STATE_REPLY_DELAYED, REPLY_STATE_REPLIED),
              (REPLY_STATE_NO_REPLY, REPLY_STATE_REPLIED)} \<or>
          REPLY_STATE_REPLIED = reply_state q"
    by (cases "reply_state q") simp_all
  with q q' show "\<exists>q q'. heap p r = Some q \<and> heap p' r = Some q' \<and> reply q' = reply q \<and>
         ((reply_state q, reply_state q') \<in>
             {(REPLY_STATE_NO_REPLY, REPLY_STATE_REPLY_DELAYED),
              (REPLY_STATE_REPLY_DELAYED, REPLY_STATE_REPLIED),
              (REPLY_STATE_NO_REPLY, REPLY_STATE_REPLIED)} \<or>
          reply_state q' = reply_state q)"
    by (intro exI[of _ q] exI[of _ "q\<lparr>reply_state := REPLY_STATE_REPLIED\<rparr>"]) simp
next
  assume "proxy_on_continue_reply_error E r p = Some p'"
  from proxy_on_continue_reply_error_effect[OF this] obtain q where q: "heap p r = Some q"
    and q': "heap p' r = Some (if reply_state q = REPLY_STATE_REPLY_DELAYED \<and> delay_reply q = 1
                               then q\<lparr>reply_state := REPLY_STATE_REPLIED\<rparr> else q)" by blast
  show "\<exists>q q'. heap p r = Some q \<and> heap p' r = Some q' \<and> reply q' = reply q \<and>
         ((reply_state q, reply_state q') \<in>
             {(REPLY_STATE_NO_REPLY, REPLY_STATE_REPLY_DELAYED),
              (REPLY_STATE_REPLY_DELAYED, REPLY_STATE_REPLIED),
              (REPLY_STATE_NO_REPLY, REPLY_STATE_REPLIED)} \<or>
          reply_state q' = reply_state q)"
    using q q'
    by (intro exI[of _ q] exI[of _ "if reply_state q = REPLY_STATE_REPLY_DELAYED \<and> delay_reply q = 1
                               then q\<lparr>reply_state := REPLY_STATE_REPLIED\<rparr> else q"]) simp
qed


text \<open>
  C3. The reply slot of a request is written at most once and its reply state moves only
  along NO_REPLY \<rightarrow> REPLY_DELAYED, REPLY_DELAYED \<rightarrow> REPLIED and NO_REPLY \<rightarrow> REPLIED.
  The functions of the file that write the two fields are \<^verbatim>\<open>sendReply\<close>,
  \<^verbatim>\<open>continueSendReply\<close> and \<^verbatim>\<open>proxy_on_continue_reply_error\<close>. Whenever one of them
  returns, the slot was written at most once and the state moved along an allowed edge or
  stayed. On a request with an empty slot \<^verbatim>\<open>sendReply\<close> does return: in the state
  NO_REPLY with \<open>delay_reply\<close> 0 it stores the reply and reaches REPLIED, and its result
  is that of \<^verbatim>\<open>continueSendReply\<close> on the stored reply; in the state NO_REPLY with another
  \<open>delay_reply\<close> it stores the reply and sets REPLY_DELAYED; in another state it stores
  the reply and leaves the state. On a request with a filled slot \<^verbatim>\<open>sendReply\<close> fails its
  assertion, and \<^verbatim>\<open>continueSendReply\<close> returns with the state REPLIED and the slot as it
  was. \<^verbatim>\<open>proxy_on_continue_reply_error\<close> is \<^verbatim>\<open>continueSendReply\<close> on a delayed request
  whose last writer failed, and changes nothing otherwise.
\<close>

theorem reply_set_once_and_state_monotone:
  "(sendReply E r m p = Some p' \<longrightarrow>
      (\<exists>q q'. heap p r = Some q \<and> heap p' r = Some q' \<and>
         reply q = None \<and> reply q' \<noteq> None \<and> sendReply E r m2 p' = None \<and>
         ((reply_state q, reply_state q') \<in>
             {(REPLY_STATE_NO_REPLY, REPLY_STATE_REPLY_DELAYED),
              (REPLY_STATE_REPLY_DELAYED, REPLY_STATE_REPLIED),
              (REPLY_STATE_NO_REPLY, REPLY_STATE_REPLIED)} \<or>
          reply_state q' = reply_state q) \<and>
         (reply_state q = REPLY_STATE_NO_REPLY \<and> delay_reply q = 0 \<longrightarrow>
            reply_state q' = REPLY_STATE_REPLIED \<and>
            continueSendReply E r
              (p\<lparr>heap := (heap p)(r \<mapsto> q\<lparr>reply := reply q'\<rparr>)\<rparr>) = Some p') \<and>
         (reply_state q = REPLY_STATE_NO_REPLY \<and> 0 < delay_reply q \<longrightarrow>
            reply_state q' = REPLY_STATE_REPLY_DELAYED))) \<and>
   (continueSendReply E r p = Some p' \<longrightarrow>
      (\<exists>q q'. heap p r = Some q \<and> heap p' r = Some q' \<and> reply q' = reply q \<and>
         ((reply_state q, reply_state q') \<in>
             {(REPLY_STATE_NO_REPLY, REPLY_STATE_REPLY_DELAYED),
              (REPLY_STATE_REPLY_DELAYED, REPLY_STATE_REPLIED),
              (REPLY_STATE_NO_REPLY, REPLY_STATE_REPLIED)} \<or>
          reply_state q' = reply_state q))) \<and>
   (proxy_on_continue_reply_error E r p = Some p' \<longrightarrow>
      (\<exists>q q'. heap p r = Some q \<and> heap p' r = Some q' \<and> reply q' = reply q \<and>
         ((reply_state q, reply_state q') \<in>
             {(REPLY_STATE_NO_REPLY, REPLY_STATE_REPLY_DELAYED),
              (REPLY_STATE_REPLY_DELAYED, REPLY_STATE_REPLIED),
              (REPLY_STATE_NO_REPLY, REPLY_STATE_REPLIED)} \<or>
          reply_state q' = reply_state q))) \<and>
   (heap p r = Some q \<and> reply q = None \<and>
    reply_state q = REPLY_STATE_NO_REPLY \<and> delay_reply q = 0 \<longrightarrow>
      (\<exists>p1. sendReply E r m p = Some p1 \<and>
         heap p1 = (heap p)(r \<mapsto> q\<lparr>reply := Some (m\<lparr>op := (if legacy_get_service_info q then mc_op_get
                                            else op (orig_req q))\<rparr>),
                                    reply_state := REPLY_STATE_REPLIED\<rparr>) \<and>
         continueSendReply E r (p\<lparr>heap := (heap p)(r \<mapsto> q\<lparr>reply := Some (m\<lparr>op := (if legacy_get_service_info q then mc_op_get
                                            else op (orig_req q))\<rparr>)\<rparr>)\<rparr>) = Some p1)) \<and>
   (heap p r = Some q \<and> reply q = None \<and>
    reply_state q = REPLY_STATE_NO_REPLY \<and> delay_reply q \<noteq> 0 \<longrightarrow>
      sendReply E r m p =
        Some (p\<lparr>heap := (heap p)(r \<mapsto> q\<lparr>reply := Some (m\<lparr>op := (if legacy_get_service_info q then mc_op_get
                                            else op (orig_req q))\<rparr>),
                                          reply_state := REPLY_STATE_REPLY_DELAYED\<rparr>)\<rparr>)) \<and>
   (heap p r = Some q \<and> reply q = None \<and> reply_state q \<noteq> REPLY_STATE_NO_REPLY \<longrightarrow>
      sendReply E r m p = Some (p\<lparr>heap := (heap p)(r \<mapsto> q\<lparr>reply := Some (m\<lparr>op := (if legacy_get_service_info q then mc_op_get
                                            else op (orig_req q))\<rparr>)\<rparr>)\<rparr>)) \<and>
   (heap p r = Some q \<and> reply q \<noteq> None \<longrightarrow>
      sendReply E r m p = None \<and>
      (\<exists>p1. continueSendReply E r p = Some p1 \<and>
            heap p1 = (heap p)(r \<mapsto> q\<lparr>reply_state := REPLY_STATE_REPLIED\<rparr>))) \<and>
   (heap p r = Some q \<and> reply q = None \<longrightarrow> continueSendReply E r p = None) \<and>
   (heap p r = Some q \<and> reply q \<noteq> None \<and>
    reply_state q = REPLY_STATE_REPLY_DELAYED \<and> delay_reply q = 1 \<longrightarrow>
      (\<exists>p1. proxy_on_continue_reply_error E r p = Some p1 \<and>
            heap p1 = (heap p)(r \<mapsto> q\<lparr>reply_state := REPLY_STATE_REPLIED\<rparr>))) \<and>
   (heap p r = Some q \<and> \<not> (reply_state q = REPLY_STATE_REPLY_DELAYED \<and> delay_reply q = 1) \<longrightarrow>
      proxy_on_continue_reply_error E r p = Some p)"
proof -
  let ?rq = "q\<lparr>reply := Some (m\<lparr>op := (if legacy_get_service_info q then mc_op_get
                                            else op (orig_req q))\<rparr>)\<rparr>"
  have immediate: "\<exists>p1. sendReply E r m p = Some p1 \<and>
         heap p1 = (heap p)(r \<mapsto> ?rq\<lparr>reply_state := REPLY_STATE_REPLIED\<rparr>) \<and>
         continueSendReply E r (p\<lparr>heap := (heap p)(r \<mapsto> ?rq)\<rparr>) = Some p1"
    if h: "heap p r = Some q \<and> reply q = None \<and>
           reply_state q = REPLY_STATE_NO_REPLY \<and> delay_reply q = 0"
  proof -
    from h sendReply_total[of p r q E m] obtain p1 where
      s: "sendReply E r m p = Some p1"
      and hp: "heap p1 = (heap p)(r \<mapsto> ?rq\<lparr>reply_state := REPLY_STATE_REPLIED\<rparr>)"
      by auto
    from h s have "continueSendReply E r (p\<lparr>heap := (heap p)(r \<mapsto> ?rq)\<rparr>) = Some p1"
      by (simp add: sendReply_def Let_def split del: if_split cong: if_cong)
    with s hp show ?thesis by blast
  qed
  have delayed: "sendReply E r m p =
        Some (p\<lparr>heap := (heap p)(r \<mapsto> ?rq\<lparr>reply_state := REPLY_STATE_REPLY_DELAYED\<rparr>)\<rparr>)"
    if "heap p r = Some q \<and> reply q = None \<and>
        reply_state q = REPLY_STATE_NO_REPLY \<and> delay_reply q \<noteq> 0"
    using that by (simp add: sendReply_def Let_def)
  have other: "sendReply E r m p = Some (p\<lparr>heap := (heap p)(r \<mapsto> ?rq)\<rparr>)"
    if "heap p r = Some q \<and> reply q = None \<and> reply_state q \<noteq> REPLY_STATE_NO_REPLY"
    using that by (simp add: sendReply_def Let_def)
  have filled: "sendReply E r m p = None \<and>
      (\<exists>p1. continueSendReply E r p = Some p1 \<and>
            heap p1 = (heap p)(r \<mapsto> q\<lparr>reply_state := REPLY_STATE_REPLIED\<rparr>))"
    if h: "heap p r = Some q \<and> reply q \<noteq> None"
  proof -
    from h obtain rep where "reply q = Some rep" by auto
    from continueSendReply_total[OF _ this, of p r E] h
    show ?thesis by (simp add: sendReply_def)
  qed
  have empty: "continueSendReply E r p = None" if "heap p r = Some q \<and> reply q = None"
    using that by (simp add: continueSendReply_def enqueueReply_def Let_def)
  have err: "\<exists>p1. proxy_on_continue_reply_error E r p = Some p1 \<and>
            heap p1 = (heap p)(r \<mapsto> q\<lparr>reply_state := REPLY_STATE_REPLIED\<rparr>)"
    if h: "heap p r = Some q \<and> reply q \<noteq> None \<and>
           reply_state q = REPLY_STATE_REPLY_DELAYED \<and> delay_reply q = 1"
  proof -
    from h obtain rep where "reply q = Some rep" by auto
    from continueSendReply_total[OF _ this, of p r E] h
    show ?thesis by (simp add: proxy_on_continue_reply_error_def)
  qed
  have noerr: "proxy_on_continue_reply_error E r p = Some p"
    if "heap p r = Some q \<and> \<not> (reply_state q = REPLY_STATE_REPLY_DELAYED \<and> delay_reply q = 1)"
    using that by (auto simp: proxy_on_continue_reply_error_def)
  from reply_edges[of E r m p p' m2] immediate delayed other filled empty err noerr
  show ?thesis by blast
qed

theorem reply_set_once_and_state_monotone_witness:
  "(\<exists>p1.
     sendReply scenario_externals 1 (request_msg mc_op_unknown [])
       ((proxy_t_init (scenario_opts 2))
          \<lparr>heap := [1 \<mapsto> scenario_request mc_op_set ''k'']\<rparr>) = Some p1 \<and>
     map_option reply_state (heap p1 1) = Some REPLY_STATE_REPLIED \<and>
     map_option reply (heap p1 1) = Some (Some (request_msg mc_op_set []))) \<and>
   (\<exists>p' p''.
     sendReply scenario_externals 1 (request_msg mc_op_unknown [])
       ((proxy_t_init (scenario_opts 2))
          \<lparr>heap := [1 \<mapsto> (scenario_request mc_op_set ''k'')\<lparr>delay_reply := 1\<rparr>]\<rparr>) = Some p' \<and>
     map_option reply_state (heap p' 1) = Some REPLY_STATE_REPLY_DELAYED \<and>
     sendReply scenario_externals 1 (request_msg mc_op_unknown []) p' = None \<and>
     proxy_on_continue_reply_error scenario_externals 1 p' = Some p'' \<and>
     map_option reply_state (heap p'' 1) = Some REPLY_STATE_REPLIED \<and>
     map_option reply (heap p'' 1) = map_option reply (heap p' 1))"
proof -
  let ?E = scenario_externals
  let ?m = "request_msg mc_op_unknown []"
  let ?qa = "scenario_request mc_op_set ''k''"
  let ?pa = "(proxy_t_init (scenario_opts 2))\<lparr>heap := [1 \<mapsto> ?qa]\<rparr>"
  let ?q = "(scenario_request mc_op_set ''k'')\<lparr>delay_reply := 1\<rparr>"
  let ?p = "(proxy_t_init (scenario_opts 2))\<lparr>heap := [1 \<mapsto> ?q]\<rparr>"
  let ?q1 = "?q\<lparr>reply := Some (?m\<lparr>op := mc_op_set\<rparr>), reply_state := REPLY_STATE_REPLY_DELAYED\<rparr>"
  let ?p1 = "?p\<lparr>heap := [1 \<mapsto> ?q1]\<rparr>"
  have first: "\<exists>p1. sendReply ?E 1 ?m ?pa = Some p1 \<and>
     map_option reply_state (heap p1 1) = Some REPLY_STATE_REPLIED \<and>
     map_option reply (heap p1 1) = Some (Some (request_msg mc_op_set []))"
    using reply_set_once_and_state_monotone[where E = ?E and r = 1 and m = ?m and p = ?pa
            and q = ?qa and p' = ?pa and ?m2.0 = ?m,
            THEN conjunct2, THEN conjunct2, THEN conjunct2, THEN conjunct1]
    by (auto simp: scenario_request_def request_msg_def)
  have s: "sendReply ?E 1 ?m ?p = Some ?p1"
    using reply_set_once_and_state_monotone[where E = ?E and r = 1 and m = ?m and p = ?p
            and q = ?q and p' = ?p and ?m2.0 = ?m,
            THEN conjunct2, THEN conjunct2, THEN conjunct2, THEN conjunct2, THEN conjunct1]
    by (simp add: scenario_request_def request_msg_def)
  have again: "sendReply ?E 1 ?m ?p1 = None"
    using reply_set_once_and_state_monotone[where E = ?E and r = 1 and m = ?m and p = ?p1
            and q = ?q1 and p' = ?p and ?m2.0 = ?m,
            THEN conjunct2, THEN conjunct2, THEN conjunct2, THEN conjunct2, THEN conjunct2,
            THEN conjunct2, THEN conjunct1]
    by simp
  have "\<exists>p2. proxy_on_continue_reply_error ?E 1 ?p1 = Some p2 \<and>
            heap p2 = (heap ?p1)(1 \<mapsto> ?q1\<lparr>reply_state := REPLY_STATE_REPLIED\<rparr>)"
    using reply_set_once_and_state_monotone[where E = ?E and r = 1 and m = ?m and p = ?p1
            and q = ?q1 and p' = ?p and ?m2.0 = ?m,
            THEN conjunct2, THEN conjunct2, THEN conjunct2, THEN conjunct2, THEN conjunct2,
            THEN conjunct2, THEN conjunct2, THEN conjunct2, THEN conjunct1]
    by (simp add: scenario_request_def)
  then obtain p2 where c: "proxy_on_continue_reply_error ?E 1 ?p1 = Some p2"
    and hp2: "heap p2 = (heap ?p1)(1 \<mapsto> ?q1\<lparr>reply_state := REPLY_STATE_REPLIED\<rparr>)"
    by blast
  have second: "\<exists>p' p''.
     sendReply ?E 1 ?m ?p = Some p' \<and>
     map_option reply_state (heap p' 1) = Some REPLY_STATE_REPLY_DELAYED \<and>
     sendReply ?E 1 ?m p' = None \<and>
     proxy_on_continue_reply_error ?E 1 p' = Some p'' \<and>
     map_option reply_state (heap p'' 1) = Some REPLY_STATE_REPLIED \<and>
     map_option reply (heap p'' 1) = map_option reply (heap p' 1)"
    apply (rule exI[of _ ?p1], rule exI[of _ p2])
    using s again c hp2 by simp
  from first second show ?thesis by blast
qed

subsection \<open>The legacy service-info request\<close>

lemma new_proxy_request_t_Inr:
  assumes "new_proxy_request_t E p req reqComplete senderId = Inr (q, p1)"
  shows "q = (if op req = mc_op_get \<and> take (length kInternalGetPrefix) (key req) = kInternalGetPrefix
              then \<lparr>orig_req = req\<lparr>op := mc_op_get_service_info,
                                     key := drop (length kInternalGetPrefix) (key req)\<rparr>,
                    reply = None, reply_state = REPLY_STATE_NO_REPLY,
                    delay_reply = 0, failover_disabled = 0, refcount = 1,
                    sender_id = senderId, legacy_get_service_info = True,
                    has_reqComplete = reqComplete, processing = False\<rparr>
              else \<lparr>orig_req = req, reply = None, reply_state = REPLY_STATE_NO_REPLY,
                    delay_reply = 0, failover_disabled = 0, refcount = 1,
                    sender_id = senderId, legacy_get_service_info = False,
                    has_reqComplete = reqComplete, processing = False\<rparr>)"
    and "p1 = stat_incr p proxy_request_num_outstanding_stat 1"
    and "mc_client_req_is_valid E req"
  using assms
  by (auto simp: new_proxy_request_t_def Let_def strncmp_prefix shift_nstring_inplace_def
           split: if_splits)

lemma new_proxy_request_t_valid:
  assumes "mc_client_req_is_valid E req"
  shows "\<exists>q. new_proxy_request_t E p req reqComplete senderId =
               Inr (q, stat_incr p proxy_request_num_outstanding_stat 1) \<and>
             reply q = None \<and>
             legacy_get_service_info q = (op req = mc_op_get \<and> take (length kInternalGetPrefix) (key req) = kInternalGetPrefix) \<and>
             orig_req q = (if op req = mc_op_get \<and> take (length kInternalGetPrefix) (key req) = kInternalGetPrefix
                           then req\<lparr>op := mc_op_get_service_info,
                                    key := drop (length kInternalGetPrefix) (key req)\<rparr>
                           else req)"
  using assms
  by (simp add: new_proxy_request_t_def Let_def strncmp_prefix shift_nstring_inplace_def)

lemma sendReply_op:
  assumes "heap w r = Some q0" and "reply q0 = None"
  shows "\<exists>w' q'. sendReply E r m w = Some w' \<and> heap w' r = Some q' \<and>
           reply q' = Some (m\<lparr>op := (if legacy_get_service_info q0 then mc_op_get
                                      else op (orig_req q0))\<rparr>)"
proof -
  from sendReply_total[OF assms, of E m] obtain w' where
    "sendReply E r m w = Some w'"
    "heap w' = (heap w)(r \<mapsto>
              q0\<lparr>reply := Some (m\<lparr>op := (if legacy_get_service_info q0 then mc_op_get
                                          else op (orig_req q0))\<rparr>),
                 reply_state := (if reply_state q0 \<noteq> REPLY_STATE_NO_REPLY then reply_state q0
                                 else if delay_reply q0 = 0 then REPLY_STATE_REPLIED
                                 else REPLY_STATE_REPLY_DELAYED)\<rparr>)"
    by blast
  then show ?thesis by simp
qed

text \<open>
  C4. The constructor throws on an invalid request and yields a request otherwise. A
  request constructed from an operation get and a key that begins with
  \<^verbatim>\<open>__mcrouter__.\<close> is stored, for routing, under the operation get_service_info and the
  key without that prefix, and \<^verbatim>\<open>sendReply\<close>, called on that request while its reply slot
  is empty, returns and stores the reply under the operation get; for every other request
  the stored request is the given one, and \<^verbatim>\<open>sendReply\<close> returns and stores the reply
  under the operation of the original request. The request may have changed in its other
  fields between its construction and the reply.
\<close>

theorem legacy_service_info_rewrite:
  "(\<not> mc_client_req_is_valid E req \<longrightarrow>
      new_proxy_request_t E p req reqComplete senderId = Inl (std_exception ''Invalid request'')) \<and>
   (mc_client_req_is_valid E req \<longrightarrow>
      (\<exists>q. new_proxy_request_t E p req reqComplete senderId =
              Inr (q, stat_incr p proxy_request_num_outstanding_stat 1) \<and>
            reply q = None \<and>
            (op req = mc_op_get \<and> take (length kInternalGetPrefix) (key req) = kInternalGetPrefix \<longrightarrow>
               orig_req q = req\<lparr>op := mc_op_get_service_info,
                                 key := drop (length kInternalGetPrefix) (key req)\<rparr> \<and>
               op (orig_req q) = mc_op_get_service_info \<and>
               key req = kInternalGetPrefix @ key (orig_req q) \<and>
               (\<forall>w r m q0. heap w r = Some q0 \<and> reply q0 = None \<and>
                    orig_req q0 = orig_req q \<and>
                    legacy_get_service_info q0 = legacy_get_service_info q \<longrightarrow>
                  (\<exists>w' q'. sendReply E r m w = Some w' \<and> heap w' r = Some q' \<and>
                     reply q' = Some (m\<lparr>op := mc_op_get\<rparr>)))) \<and>
            (\<not> (op req = mc_op_get \<and> take (length kInternalGetPrefix) (key req) = kInternalGetPrefix) \<longrightarrow>
               orig_req q = req \<and>
               (\<forall>w r m q0. heap w r = Some q0 \<and> reply q0 = None \<and>
                    orig_req q0 = orig_req q \<and>
                    legacy_get_service_info q0 = legacy_get_service_info q \<longrightarrow>
                  (\<exists>w' q'. sendReply E r m w = Some w' \<and> heap w' r = Some q' \<and>
                     reply q' = Some (m\<lparr>op := op req\<rparr>))))))"
proof (rule conjI; rule impI)
  assume "\<not> mc_client_req_is_valid E req"
  then show "new_proxy_request_t E p req reqComplete senderId = Inl (std_exception ''Invalid request'')"
    by (simp add: new_proxy_request_t_def)
next
  assume valid: "mc_client_req_is_valid E req"
  from new_proxy_request_t_valid[OF valid, of p reqComplete senderId]
  obtain q where c: "new_proxy_request_t E p req reqComplete senderId =
               Inr (q, stat_incr p proxy_request_num_outstanding_stat 1)"
    and none: "reply q = None"
    and flag: "legacy_get_service_info q = (op req = mc_op_get \<and> take (length kInternalGetPrefix) (key req) = kInternalGetPrefix)"
    and orig: "orig_req q = (if op req = mc_op_get \<and> take (length kInternalGetPrefix) (key req) = kInternalGetPrefix
                           then req\<lparr>op := mc_op_get_service_info,
                                    key := drop (length kInternalGetPrefix) (key req)\<rparr>
                           else req)"
    by blast
  have leg: "orig_req q = req\<lparr>op := mc_op_get_service_info,
                                 key := drop (length kInternalGetPrefix) (key req)\<rparr> \<and>
               op (orig_req q) = mc_op_get_service_info \<and>
               key req = kInternalGetPrefix @ key (orig_req q) \<and>
               (\<forall>w r m q0. heap w r = Some q0 \<and> reply q0 = None \<and>
                    orig_req q0 = orig_req q \<and>
                    legacy_get_service_info q0 = legacy_get_service_info q \<longrightarrow>
                  (\<exists>w' q'. sendReply E r m w = Some w' \<and> heap w' r = Some q' \<and>
                     reply q' = Some (m\<lparr>op := mc_op_get\<rparr>)))"
    if l: "op req = mc_op_get \<and> take (length kInternalGetPrefix) (key req) = kInternalGetPrefix"
  proof -
    from l orig have o: "orig_req q = req\<lparr>op := mc_op_get_service_info,
                                 key := drop (length kInternalGetPrefix) (key req)\<rparr>" by simp
    from l append_take_drop_id[of "length kInternalGetPrefix" "key req"]
    have k: "key req = kInternalGetPrefix @ drop (length kInternalGetPrefix) (key req)" by simp
    have s: "\<exists>w' q'. sendReply E r m w = Some w' \<and> heap w' r = Some q' \<and>
                     reply q' = Some (m\<lparr>op := mc_op_get\<rparr>)"
      if h: "heap w r = Some q0 \<and> reply q0 = None \<and> orig_req q0 = orig_req q \<and>
             legacy_get_service_info q0 = legacy_get_service_info q" for w r m q0
    proof -
      from h flag l have "legacy_get_service_info q0" by simp
      with sendReply_op[of w r q0 E m] h show ?thesis by simp
    qed
    from o have gsi: "op (orig_req q) = mc_op_get_service_info" by simp
    from o k have k': "key req = kInternalGetPrefix @ key (orig_req q)" by simp
    from o gsi k' s show ?thesis by blast
  qed
  have nleg: "orig_req q = req \<and>
               (\<forall>w r m q0. heap w r = Some q0 \<and> reply q0 = None \<and>
                    orig_req q0 = orig_req q \<and>
                    legacy_get_service_info q0 = legacy_get_service_info q \<longrightarrow>
                  (\<exists>w' q'. sendReply E r m w = Some w' \<and> heap w' r = Some q' \<and>
                     reply q' = Some (m\<lparr>op := op req\<rparr>)))"
    if l: "\<not> (op req = mc_op_get \<and> take (length kInternalGetPrefix) (key req) = kInternalGetPrefix)"
  proof -
    from l orig have o: "orig_req q = req" by (simp only: if_False)
    have s: "\<exists>w' q'. sendReply E r m w = Some w' \<and> heap w' r = Some q' \<and>
                     reply q' = Some (m\<lparr>op := op req\<rparr>)"
      if h: "heap w r = Some q0 \<and> reply q0 = None \<and> orig_req q0 = orig_req q \<and>
             legacy_get_service_info q0 = legacy_get_service_info q" for w r m q0
    proof -
      from h flag l have "\<not> legacy_get_service_info q0" by blast
      moreover from h o have "orig_req q0 = req" by simp
      ultimately have "\<not> legacy_get_service_info q0" "orig_req q0 = req" by blast+
      with sendReply_op[of w r q0 E m] h show ?thesis by simp
    qed
    from o s show ?thesis by blast
  qed
  from c none leg nleg
  show "\<exists>q. new_proxy_request_t E p req reqComplete senderId =
              Inr (q, stat_incr p proxy_request_num_outstanding_stat 1) \<and>
            reply q = None \<and>
            (op req = mc_op_get \<and> take (length kInternalGetPrefix) (key req) = kInternalGetPrefix \<longrightarrow>
               orig_req q = req\<lparr>op := mc_op_get_service_info,
                                 key := drop (length kInternalGetPrefix) (key req)\<rparr> \<and>
               op (orig_req q) = mc_op_get_service_info \<and>
               key req = kInternalGetPrefix @ key (orig_req q) \<and>
               (\<forall>w r m q0. heap w r = Some q0 \<and> reply q0 = None \<and>
                    orig_req q0 = orig_req q \<and>
                    legacy_get_service_info q0 = legacy_get_service_info q \<longrightarrow>
                  (\<exists>w' q'. sendReply E r m w = Some w' \<and> heap w' r = Some q' \<and>
                     reply q' = Some (m\<lparr>op := mc_op_get\<rparr>)))) \<and>
            (\<not> (op req = mc_op_get \<and> take (length kInternalGetPrefix) (key req) = kInternalGetPrefix) \<longrightarrow>
               orig_req q = req \<and>
               (\<forall>w r m q0. heap w r = Some q0 \<and> reply q0 = None \<and>
                    orig_req q0 = orig_req q \<and>
                    legacy_get_service_info q0 = legacy_get_service_info q \<longrightarrow>
                  (\<exists>w' q'. sendReply E r m w = Some w' \<and> heap w' r = Some q' \<and>
                     reply q' = Some (m\<lparr>op := op req\<rparr>))))"
    by (intro exI[of _ q] conjI impI) blast+
qed

theorem legacy_service_info_rewrite_witness:
  "(\<exists>q p1 w'.
     new_proxy_request_t scenario_externals (proxy_t_init (scenario_opts 2))
       (request_msg mc_op_get ''__mcrouter__.version'') False 0 = Inr (q, p1) \<and>
     op (orig_req q) = mc_op_get_service_info \<and> key (orig_req q) = ''version'' \<and>
     sendReply scenario_externals 1 (request_msg mc_op_get_service_info ''reply'')
       (p1\<lparr>heap := (heap p1)(1 \<mapsto> q)\<rparr>) = Some w' \<and>
     map_option (\<lambda>q'. map_option op (reply q')) (heap w' 1) = Some (Some mc_op_get)) \<and>
   (\<exists>q p1 w'.
     new_proxy_request_t scenario_externals (proxy_t_init (scenario_opts 2))
       (request_msg mc_op_set ''color'') False 0 = Inr (q, p1) \<and>
     orig_req q = request_msg mc_op_set ''color'' \<and>
     sendReply scenario_externals 1 (request_msg mc_op_unknown ''reply'')
       (p1\<lparr>heap := (heap p1)(1 \<mapsto> q\<lparr>refcount := 2, processing := True\<rparr>)\<rparr>) = Some w' \<and>
     map_option (\<lambda>q'. map_option op (reply q')) (heap w' 1) = Some (Some mc_op_set)) \<and>
   new_proxy_request_t scenario_externals (proxy_t_init (scenario_opts 2))
       (request_msg mc_op_get []) False 0 = Inl (std_exception ''Invalid request'')"
proof -
  let ?E = scenario_externals
  let ?p = "proxy_t_init (scenario_opts 2)"
  let ?p1 = "stat_incr ?p proxy_request_num_outstanding_stat 1"
  let ?lreq = "request_msg mc_op_get ''__mcrouter__.version''"
  let ?sreq = "request_msg mc_op_set ''color''"
  let ?bad = "request_msg mc_op_get []"
  have lv: "mc_client_req_is_valid ?E ?lreq" and sv: "mc_client_req_is_valid ?E ?sreq"
    and bv: "\<not> mc_client_req_is_valid ?E ?bad"
    by (simp_all add: scenario_externals_def request_msg_def)
  have lpre: "op ?lreq = mc_op_get \<and>
              take (length kInternalGetPrefix) (key ?lreq) = kInternalGetPrefix"
    by (simp add: request_msg_def kInternalGetPrefix_def)
  have spre: "\<not> (op ?sreq = mc_op_get \<and>
              take (length kInternalGetPrefix) (key ?sreq) = kInternalGetPrefix)"
    by (simp add: request_msg_def)
  from legacy_service_info_rewrite[where E = ?E and req = ?lreq and p = ?p
         and reqComplete = False and senderId = 0, THEN conjunct2, rule_format, OF lv] lpre
  obtain q where c: "new_proxy_request_t ?E ?p ?lreq False 0 = Inr (q, ?p1)"
    and o: "op (orig_req q) = mc_op_get_service_info"
           "key ?lreq = kInternalGetPrefix @ key (orig_req q)"
    and s: "\<And>w r m q0. heap w r = Some q0 \<and> reply q0 = None \<and>
                    orig_req q0 = orig_req q \<and>
                    legacy_get_service_info q0 = legacy_get_service_info q \<Longrightarrow>
                  (\<exists>w' q'. sendReply ?E r m w = Some w' \<and> heap w' r = Some q' \<and>
                     reply q' = Some (m\<lparr>op := mc_op_get\<rparr>))"
    and n: "reply q = None"
    by blast
  from o(2) have k: "key (orig_req q) = ''version''"
    by (simp add: request_msg_def kInternalGetPrefix_def)
  from s[of "?p1\<lparr>heap := (heap ?p1)(1 \<mapsto> q)\<rparr>" 1 q
           "request_msg mc_op_get_service_info ''reply''"] n
  obtain w' where "sendReply ?E 1 (request_msg mc_op_get_service_info ''reply'')
       (?p1\<lparr>heap := (heap ?p1)(1 \<mapsto> q)\<rparr>) = Some w'"
     "map_option (\<lambda>q'. map_option op (reply q')) (heap w' 1) = Some (Some mc_op_get)"
    by auto
  with c o(1) k have first: "\<exists>q p1 w'.
     new_proxy_request_t ?E ?p ?lreq False 0 = Inr (q, p1) \<and>
     op (orig_req q) = mc_op_get_service_info \<and> key (orig_req q) = ''version'' \<and>
     sendReply ?E 1 (request_msg mc_op_get_service_info ''reply'')
       (p1\<lparr>heap := (heap p1)(1 \<mapsto> q)\<rparr>) = Some w' \<and>
     map_option (\<lambda>q'. map_option op (reply q')) (heap w' 1) = Some (Some mc_op_get)"
    by blast
  from legacy_service_info_rewrite[where E = ?E and req = ?sreq and p = ?p
         and reqComplete = False and senderId = 0, THEN conjunct2, rule_format, OF sv] spre
  obtain q2 where c2: "new_proxy_request_t ?E ?p ?sreq False 0 = Inr (q2, ?p1)"
    and o2: "orig_req q2 = ?sreq"
    and s2: "\<And>w r m q0. heap w r = Some q0 \<and> reply q0 = None \<and>
                    orig_req q0 = orig_req q2 \<and>
                    legacy_get_service_info q0 = legacy_get_service_info q2 \<Longrightarrow>
                  (\<exists>w' q'. sendReply ?E r m w = Some w' \<and> heap w' r = Some q' \<and>
                     reply q' = Some (m\<lparr>op := op ?sreq\<rparr>))"
    and n2: "reply q2 = None"
    by blast
  from s2[of "?p1\<lparr>heap := (heap ?p1)(1 \<mapsto> q2\<lparr>refcount := 2, processing := True\<rparr>)\<rparr>" 1
            "q2\<lparr>refcount := 2, processing := True\<rparr>" "request_msg mc_op_unknown ''reply''"] n2
  obtain w2 where "sendReply ?E 1 (request_msg mc_op_unknown ''reply'')
       (?p1\<lparr>heap := (heap ?p1)(1 \<mapsto> q2\<lparr>refcount := 2, processing := True\<rparr>)\<rparr>) = Some w2"
     "map_option (\<lambda>q'. map_option op (reply q')) (heap w2 1) = Some (Some mc_op_set)"
    by (auto simp: request_msg_def)
  with c2 o2 have second: "\<exists>q p1 w'.
     new_proxy_request_t ?E ?p ?sreq False 0 = Inr (q, p1) \<and>
     orig_req q = ?sreq \<and>
     sendReply ?E 1 (request_msg mc_op_unknown ''reply'')
       (p1\<lparr>heap := (heap p1)(1 \<mapsto> q\<lparr>refcount := 2, processing := True\<rparr>)\<rparr>) = Some w' \<and>
     map_option (\<lambda>q'. map_option op (reply q')) (heap w' 1) = Some (Some mc_op_set)"
    by blast
  from legacy_service_info_rewrite[where E = ?E and req = ?bad and p = ?p
         and reqComplete = False and senderId = 0, THEN conjunct1] bv
  have third: "new_proxy_request_t ?E ?p ?bad False 0 = Inl (std_exception ''Invalid request'')"
    by blast
  from first second third show ?thesis by blast
qed

subsection \<open>Exceptions of the route handle\<close>

text \<open>
  C5, as the code has it. When the root route handle throws a \<^verbatim>\<open>std::exception\<close>, the task on the
  fiber still produces a reply: it carries the operation of the request, its result code
  is local_error and its value is the C string of
  \<^verbatim>\<open>error routing <key>: <what>\<close>, which for a key and an exception text without a NUL
  character is exactly that text. The main-context half of the task then is \<^verbatim>\<open>sendReply\<close>
  of that reply followed by the release of the task's reference, and on a request whose
  slot is empty \<^verbatim>\<open>sendReply\<close> returns with the synthetic reply stored. When the root route
  handle throws anything else, the exception leaves the task and no reply is stored.
\<close>

theorem route_exception_becomes_local_error:
  "(dispatchMcMsg (orig_req q) = Inl (std_exception what) \<longrightarrow>
      (\<exists>m. fiber_task dispatchMcMsg q = Inr m \<and>
         op m = op (orig_req q) \<and>
         result m = mc_res_local_error \<and>
         msg_value m = c_str (''error routing '' @ key (orig_req q) @ '': '' @ c_str what) \<and>
         (CHR 0x00 \<notin> set (key (orig_req q)) \<and> CHR 0x00 \<notin> set what \<longrightarrow>
            msg_value m = ''error routing '' @ key (orig_req q) @ '': '' @ what) \<and>
         (\<forall>p r. heap p r = Some q \<and> r \<in> set (fiberTasks p) \<longrightarrow>
            runFiberTask E dispatchMcMsg r p =
              Option.bind (sendReply E r m (p\<lparr>fiberTasks := remove1 r (fiberTasks p)\<rparr>))
                (proxy_request_decref E r)) \<and>
         (\<forall>p r. heap p r = Some q \<and> r \<in> set (fiberTasks p) \<and> reply q = None \<longrightarrow>
            (\<exists>p1 q1 rep.
               sendReply E r m (p\<lparr>fiberTasks := remove1 r (fiberTasks p)\<rparr>) = Some p1 \<and>
               heap p1 r = Some q1 \<and> reply q1 = Some rep \<and>
               result rep = mc_res_local_error \<and> msg_value rep = msg_value m \<and>
               runFiberTask E dispatchMcMsg r p = proxy_request_decref E r p1)))) \<and>
   (dispatchMcMsg (orig_req q) = Inl other_exception \<longrightarrow>
      fiber_task dispatchMcMsg q = Inl other_exception \<and>
      (\<forall>p r. heap p r = Some q \<longrightarrow> runFiberTask E dispatchMcMsg r p = None))"
proof (rule conjI; rule impI)
  assume thr: "dispatchMcMsg (orig_req q) = Inl (std_exception what)"
  let ?text = "''error routing '' @ key (orig_req q) @ '': '' @ c_str what"
  let ?m = "create_reply (op (orig_req q)) mc_res_local_error (Some ?text)"
  have ft: "fiber_task dispatchMcMsg q = Inr ?m"
    using thr by (simp add: fiber_task_def)
  have opm: "op ?m = op (orig_req q)" and res: "result ?m = mc_res_local_error"
    and val: "msg_value ?m = c_str ?text"
    by (simp_all add: create_reply_def new_reply_def)
  have exact: "msg_value ?m = ''error routing '' @ key (orig_req q) @ '': '' @ what"
    if nul: "CHR 0x00 \<notin> set (key (orig_req q)) \<and> CHR 0x00 \<notin> set what"
  proof -
    from nul have w: "c_str what = what" by (simp add: c_str_no_nul)
    from nul have "CHR 0x00 \<notin> set (''error routing '' @ key (orig_req q) @ '': '' @ what)"
      by simp
    then have "c_str (''error routing '' @ key (orig_req q) @ '': '' @ what)
                 = ''error routing '' @ key (orig_req q) @ '': '' @ what"
      by (rule c_str_no_nul)
    with val w show ?thesis by simp
  qed
  have main: "runFiberTask E dispatchMcMsg r p =
              Option.bind (sendReply E r ?m (p\<lparr>fiberTasks := remove1 r (fiberTasks p)\<rparr>))
                (proxy_request_decref E r)"
    if "heap p r = Some q \<and> r \<in> set (fiberTasks p)" for p r
    using that ft by (simp add: runFiberTask_def)
  have stored: "\<exists>p1 q1 rep.
               sendReply E r ?m (p\<lparr>fiberTasks := remove1 r (fiberTasks p)\<rparr>) = Some p1 \<and>
               heap p1 r = Some q1 \<and> reply q1 = Some rep \<and>
               result rep = mc_res_local_error \<and> msg_value rep = msg_value ?m \<and>
               runFiberTask E dispatchMcMsg r p = proxy_request_decref E r p1"
    if h: "heap p r = Some q \<and> r \<in> set (fiberTasks p) \<and> reply q = None" for p r
  proof -
    let ?p0 = "p\<lparr>fiberTasks := remove1 r (fiberTasks p)\<rparr>"
    from h have "heap ?p0 r = Some q" "reply q = None" by simp_all
    from sendReply_total[OF this, of E ?m] obtain p1 where
      s: "sendReply E r ?m ?p0 = Some p1"
      and hp: "heap p1 = (heap ?p0)(r \<mapsto>
              q\<lparr>reply := Some (?m\<lparr>op := (if legacy_get_service_info q then mc_op_get
                                         else op (orig_req q))\<rparr>),
                reply_state := (if reply_state q \<noteq> REPLY_STATE_NO_REPLY then reply_state q
                                else if delay_reply q = 0 then REPLY_STATE_REPLIED
                                else REPLY_STATE_REPLY_DELAYED)\<rparr>)"
      by blast
    from main[of p r] h s have "runFiberTask E dispatchMcMsg r p = proxy_request_decref E r p1"
      by simp
    with s hp res show ?thesis by simp
  qed
  from ft opm res val exact main stored
  show "\<exists>m. fiber_task dispatchMcMsg q = Inr m \<and>
         op m = op (orig_req q) \<and>
         result m = mc_res_local_error \<and>
         msg_value m = c_str (''error routing '' @ key (orig_req q) @ '': '' @ c_str what) \<and>
         (CHR 0x00 \<notin> set (key (orig_req q)) \<and> CHR 0x00 \<notin> set what \<longrightarrow>
            msg_value m = ''error routing '' @ key (orig_req q) @ '': '' @ what) \<and>
         (\<forall>p r. heap p r = Some q \<and> r \<in> set (fiberTasks p) \<longrightarrow>
            runFiberTask E dispatchMcMsg r p =
              Option.bind (sendReply E r m (p\<lparr>fiberTasks := remove1 r (fiberTasks p)\<rparr>))
                (proxy_request_decref E r)) \<and>
         (\<forall>p r. heap p r = Some q \<and> r \<in> set (fiberTasks p) \<and> reply q = None \<longrightarrow>
            (\<exists>p1 q1 rep.
               sendReply E r m (p\<lparr>fiberTasks := remove1 r (fiberTasks p)\<rparr>) = Some p1 \<and>
               heap p1 r = Some q1 \<and> reply q1 = Some rep \<and>
               result rep = mc_res_local_error \<and> msg_value rep = msg_value m \<and>
               runFiberTask E dispatchMcMsg r p = proxy_request_decref E r p1))"
    by (intro exI[of _ ?m] conjI impI allI) blast+
next
  assume thr: "dispatchMcMsg (orig_req q) = Inl other_exception"
  then have ft: "fiber_task dispatchMcMsg q = Inl other_exception"
    by (simp add: fiber_task_def)
  then show "fiber_task dispatchMcMsg q = Inl other_exception \<and>
      (\<forall>p r. heap p r = Some q \<longrightarrow> runFiberTask E dispatchMcMsg r p = None)"
    by (simp add: runFiberTask_def)
qed

theorem route_exception_becomes_local_error_witness:
  "(\<exists>m p1 p2.
      fiber_task scenario_failing_route (scenario_request mc_op_set ''k'') = Inr m \<and>
      result m = mc_res_local_error \<and>
      msg_value m = ''error routing k: upstream down'' \<and>
      sendReply scenario_externals 1 m
        ((proxy_t_init (scenario_opts 2))
           \<lparr>heap := [1 \<mapsto> scenario_request mc_op_set ''k''], fiberTasks := []\<rparr>) = Some p1 \<and>
      map_option (\<lambda>q'. map_option msg_value (reply q')) (heap p1 1)
        = Some (Some ''error routing k: upstream down'') \<and>
      runFiberTask scenario_externals scenario_failing_route 1
        ((proxy_t_init (scenario_opts 2))
           \<lparr>heap := [1 \<mapsto> scenario_request mc_op_set ''k''], fiberTasks := [1]\<rparr>) = Some p2) \<and>
   fiber_task scenario_throwing_route (scenario_request mc_op_set ''k'') = Inl other_exception"
proof -
  let ?E = scenario_externals
  let ?q = "scenario_request mc_op_set ''k''"
  let ?p = "(proxy_t_init (scenario_opts 2))\<lparr>heap := [1 \<mapsto> ?q], fiberTasks := [1]\<rparr>"
  let ?pa = "(proxy_t_init (scenario_opts 2))\<lparr>heap := [1 \<mapsto> ?q], fiberTasks := []\<rparr>"
  have thr: "scenario_failing_route (orig_req ?q) = Inl (std_exception ''upstream down'')"
    by (simp add: scenario_failing_route_def)
  have nul: "CHR 0x00 \<notin> set (key (orig_req ?q)) \<and> CHR 0x00 \<notin> set ''upstream down''"
    by (simp add: scenario_request_def request_msg_def)
  have pre: "heap ?p 1 = Some ?q \<and> 1 \<in> set (fiberTasks ?p) \<and> reply ?q = None"
    by (simp add: scenario_request_def)
  have pa: "?p\<lparr>fiberTasks := remove1 1 (fiberTasks ?p)\<rparr> = ?pa" by simp
  from route_exception_becomes_local_error[where dispatchMcMsg = scenario_failing_route
         and q = ?q and what = "''upstream down''" and E = ?E, THEN conjunct1, rule_format, OF thr]
  obtain m where m: "fiber_task scenario_failing_route ?q = Inr m" "result m = mc_res_local_error"
    and ex: "CHR 0x00 \<notin> set (key (orig_req ?q)) \<and> CHR 0x00 \<notin> set ''upstream down'' \<longrightarrow>
            msg_value m = ''error routing '' @ key (orig_req ?q) @ '': '' @ ''upstream down''"
    and st: "\<forall>p r. heap p r = Some ?q \<and> r \<in> set (fiberTasks p) \<and> reply ?q = None \<longrightarrow>
            (\<exists>p1 q1 rep.
               sendReply ?E r m (p\<lparr>fiberTasks := remove1 r (fiberTasks p)\<rparr>) = Some p1 \<and>
               heap p1 r = Some q1 \<and> reply q1 = Some rep \<and>
               result rep = mc_res_local_error \<and> msg_value rep = msg_value m \<and>
               runFiberTask ?E scenario_failing_route r p = proxy_request_decref ?E r p1)"
    by blast
  from ex nul have v: "msg_value m = ''error routing k: upstream down''"
    by (simp add: scenario_request_def request_msg_def)
  from st[rule_format, OF pre] obtain p1 q1 rep where
    s: "sendReply ?E 1 m (?p\<lparr>fiberTasks := remove1 1 (fiberTasks ?p)\<rparr>) = Some p1"
    and h1: "heap p1 1 = Some q1" "reply q1 = Some rep" "msg_value rep = msg_value m"
    and run: "runFiberTask ?E scenario_failing_route 1 ?p = proxy_request_decref ?E 1 p1"
    by blast
  from s have s': "sendReply ?E 1 m ?pa = Some p1" by (simp only: pa)
  from sendReply_frame[OF s'] obtain q0 q' where
    f: "heap ?pa 1 = Some q0" "heap p1 = (heap ?pa)(1 \<mapsto> q')" "processing q' = processing q0"
       "refcount q' = refcount q0" "opts p1 = opts ?pa"
    by blast
  from f(1) have q0: "q0 = ?q" by simp
  from f h1(1) have q1: "q1 = q'" by simp
  have "\<exists>p2. proxy_request_decref ?E 1 p1 = Some p2"
    using h1(1) f(3,4,5) q0 q1
    by (subst proxy_request_decref.simps)
       (simp add: scenario_request_def proxy_t_init_def scenario_opts_def Let_def)
  with run obtain p2 where p2: "runFiberTask ?E scenario_failing_route 1 ?p = Some p2" by auto
  have stored: "map_option (\<lambda>q'. map_option msg_value (reply q')) (heap p1 1)
        = Some (Some ''error routing k: upstream down'')"
    using h1 v by simp
  have oth: "scenario_throwing_route (orig_req ?q) = Inl other_exception"
    by (simp add: scenario_throwing_route_def)
  from route_exception_becomes_local_error[where dispatchMcMsg = scenario_throwing_route
         and q = ?q and what = "''upstream down''" and E = ?E, THEN conjunct2, rule_format, OF oth]
  have esc: "fiber_task scenario_throwing_route ?q = Inl other_exception" by blast
  from m v s' stored p2 esc show ?thesis by blast
qed

text \<open>
  C5 as stated does not hold: the catch clause of the task names \<^verbatim>\<open>std::exception\<close>. A
  root route handle that throws a value of another type ends the task with that
  exception, and the request, which was handed to the task, receives no reply.
\<close>

theorem route_exception_of_other_type_escapes:
  "fiber_task scenario_throwing_route (scenario_request mc_op_set ''k'') = Inl other_exception \<and>
   heap scenario_routing 1 =
     Some ((scenario_request mc_op_set ''k'')\<lparr>refcount := 2, processing := True\<rparr>) \<and>
   fiberTasks scenario_routing = [1] \<and>
   runFiberTask scenario_externals scenario_throwing_route 1 scenario_routing = None"
  by (simp add: fiber_task_def runFiberTask_def scenario_throwing_route_def scenario_routing_def
        scenario_request_def request_msg_def)

subsection \<open>Matching the route pattern\<close>

lemma regex_match_Plus:
  "regex_match s (Plus a # ps) \<longleftrightarrow>
   (\<exists>r t. r \<noteq> [] \<and> (\<forall>c\<in>set r. atom_matches a c) \<and> s = r @ t \<and> regex_match t ps)"
proof (induction s)
  case Nil
  then show ?case by simp
next
  case (Cons c cs)
  show ?case
  proof
    assume "regex_match (c # cs) (Plus a # ps)"
    then have a: "atom_matches a c"
      and d: "regex_match cs (Plus a # ps) \<or> regex_match cs ps" by auto
    from d show "\<exists>r t. r \<noteq> [] \<and> (\<forall>c\<in>set r. atom_matches a c) \<and> c # cs = r @ t \<and> regex_match t ps"
    proof
      assume "regex_match cs (Plus a # ps)"
      with Cons.IH obtain r t where
        "r \<noteq> []" "\<forall>c\<in>set r. atom_matches a c" "cs = r @ t" "regex_match t ps" by blast
      with a show ?thesis by (intro exI[of _ "c # r"] exI[of _ t]) simp
    next
      assume "regex_match cs ps"
      with a show ?thesis by (intro exI[of _ "[c]"] exI[of _ cs]) simp
    qed
  next
    assume "\<exists>r t. r \<noteq> [] \<and> (\<forall>c\<in>set r. atom_matches a c) \<and> c # cs = r @ t \<and> regex_match t ps"
    then obtain r t where r: "r \<noteq> []" "\<forall>c\<in>set r. atom_matches a c" "c # cs = r @ t"
      "regex_match t ps" by blast
    then obtain r' where r': "r = c # r'" "cs = r' @ t" by (cases r) auto
    show "regex_match (c # cs) (Plus a # ps)"
    proof (cases "r' = []")
      case True
      with r r' show ?thesis by simp
    next
      case False
      with r r' have "regex_match cs (Plus a # ps)" using Cons.IH by auto
      with r r' show ?thesis by simp
    qed
  qed
qed

lemma regex_match_Opt_end: "regex_match u [Opt (Lit ch)] \<longleftrightarrow> u = [] \<or> u = [ch]"
  by (cases u) auto

lemma regex_match_Once: "regex_match s (Once (Lit ch) # ps) \<longleftrightarrow> (\<exists>t. s = ch # t \<and> regex_match t ps)"
  by (cases s) auto

lemma routeRegex_shape:
  "regex_match str routeRegex \<longleftrightarrow>
   (\<exists>region cluster. region \<noteq> [] \<and> cluster \<noteq> [] \<and>
      CHR ''/'' \<notin> set region \<and> CHR ''/'' \<notin> set cluster \<and>
      (str = ''/'' @ region @ ''/'' @ cluster \<or> str = ''/'' @ region @ ''/'' @ cluster @ ''/''))"
  (is "?L \<longleftrightarrow> ?R")
proof
  assume ?L
  then obtain s1 where s1: "str = CHR ''/'' # s1"
    and m1: "regex_match s1 [Plus (NotLit CHR ''/''), Once (Lit CHR ''/''),
                             Plus (NotLit CHR ''/''), Opt (Lit CHR ''/'')]"
    unfolding routeRegex_def regex_match_Once by blast
  from m1 obtain r t where r: "r \<noteq> []" "\<forall>c\<in>set r. atom_matches (NotLit CHR ''/'') c" "s1 = r @ t"
    and m2: "regex_match t [Once (Lit CHR ''/''), Plus (NotLit CHR ''/''), Opt (Lit CHR ''/'')]"
    unfolding regex_match_Plus[of s1] by blast
  from m2 obtain t1 where t1: "t = CHR ''/'' # t1"
    and m3: "regex_match t1 [Plus (NotLit CHR ''/''), Opt (Lit CHR ''/'')]"
    unfolding regex_match_Once by blast
  from m3 obtain c u where c: "c \<noteq> []" "\<forall>x\<in>set c. atom_matches (NotLit CHR ''/'') x" "t1 = c @ u"
    and m4: "regex_match u [Opt (Lit CHR ''/'')]"
    unfolding regex_match_Plus[of t1] by blast
  from m4 have u: "u = [] \<or> u = ''/''" by (simp only: regex_match_Opt_end)
  from r(2) have rn: "CHR ''/'' \<notin> set r" by auto
  from c(2) have cn: "CHR ''/'' \<notin> set c" by auto
  from u s1 r(3) t1 c(3) have "str = ''/'' @ r @ ''/'' @ c \<or> str = ''/'' @ r @ ''/'' @ c @ ''/''"
    by auto
  with r(1) c(1) rn cn show ?R by blast
next
  assume ?R
  then obtain r c where rc: "r \<noteq> []" "c \<noteq> []" "CHR ''/'' \<notin> set r" "CHR ''/'' \<notin> set c"
    and s: "str = ''/'' @ r @ ''/'' @ c \<or> str = ''/'' @ r @ ''/'' @ c @ ''/''" by blast
  have ar: "\<forall>x\<in>set r. atom_matches (NotLit CHR ''/'') x" using rc(3) by auto
  have ac: "\<forall>x\<in>set c. atom_matches (NotLit CHR ''/'') x" using rc(4) by auto
  have tail: "\<And>u. u = [] \<or> u = ''/'' \<Longrightarrow>
     regex_match (c @ u) [Plus (NotLit CHR ''/''), Opt (Lit CHR ''/'')]"
    unfolding regex_match_Plus[of "c @ _"] using rc(2) ac regex_match_Opt_end[of _ "CHR ''/''"]
    by blast
  have mid: "\<And>u. u = [] \<or> u = ''/'' \<Longrightarrow>
     regex_match (r @ CHR ''/'' # c @ u) [Plus (NotLit CHR ''/''), Once (Lit CHR ''/''),
                             Plus (NotLit CHR ''/''), Opt (Lit CHR ''/'')]"
    unfolding regex_match_Plus[of "r @ _"] regex_match_Once using rc(1) ar tail by blast
  have "\<And>u. u = [] \<or> u = ''/'' \<Longrightarrow> regex_match (CHR ''/'' # r @ CHR ''/'' # c @ u) routeRegex"
    unfolding routeRegex_def regex_match_Once using mid by blast
  from this[of "[]"] this[of "''/''"] s show ?L by auto
qed

lemma string_find_skip:
  assumes "ch \<notin> set r" and "length pre = pos"
  shows "string_find (pre @ r @ ch # rest) ch pos = Some (pos + length r)"
proof -
  have "drop pos (pre @ r @ ch # rest) = r @ ch # rest" using assms(2) by simp
  moreover have "dropWhile (\<lambda>c. c \<noteq> ch) (r @ ch # rest) = ch # rest"
    using assms(1) by (auto simp: dropWhile_append3)
  moreover have "takeWhile (\<lambda>c. c \<noteq> ch) (r @ ch # rest) = r"
    using assms(1) by (auto simp: takeWhile_tail)
  ultimately show ?thesis by (simp add: string_find_def)
qed

lemma proxy_set_default_route_shape:
  assumes "region \<noteq> []" "cluster \<noteq> []" "CHR ''/'' \<notin> set region" "CHR ''/'' \<notin> set cluster"
    and "str = ''/'' @ region @ ''/'' @ cluster \<or> str = ''/'' @ region @ ''/'' @ cluster @ ''/''"
  shows "proxy_set_default_route proxy str =
           Some (proxy\<lparr>default_route := ''/'' @ region @ ''/'' @ cluster @ ''/'',
                       default_region := region, default_cluster := cluster\<rparr>)"
    and "''/'' @ region @ ''/'' @ cluster @ ''/'' = (if last str = CHR ''/'' then str else str @ ''/'')"
proof -
  let ?full = "''/'' @ region @ ''/'' @ cluster @ ''/''"
  have m: "regex_match str routeRegex" unfolding routeRegex_shape using assms by blast
  have ne: "str \<noteq> []" using assms(5) by auto
  have "last (''/'' @ region @ ''/'' @ cluster) = last cluster" using assms(2) by simp
  moreover have "last cluster \<noteq> CHR ''/''" using assms(2,4) last_in_set by metis
  ultimately have l1: "last (''/'' @ region @ ''/'' @ cluster) \<noteq> CHR ''/''" by simp
  have l2: "last (''/'' @ region @ ''/'' @ cluster @ ''/'') = CHR ''/''" by simp
  from assms(5) l1 l2 show norm: "?full = (if last str = CHR ''/'' then str else str @ ''/'')"
    by auto
  have f1: "string_find ?full CHR ''/'' 1 = Some (1 + length region)"
    using string_find_skip[of "CHR ''/''" region "''/''" 1 "cluster @ ''/''"] assms(3) by simp
  have f2: "string_find ?full CHR ''/'' (1 + length region + 1) = Some (1 + length region + 1 + length cluster)"
    using string_find_skip[of "CHR ''/''" cluster "''/'' @ region @ ''/''" "1 + length region + 1" "[]"]
      assms(4) by simp
  have s1: "string_substr ?full 1 (size_sub (1 + length region) 1) = Some region"
    by (simp add: string_substr_def size_sub_def)
  have s2: "string_substr ?full (1 + length region + 1)
              (size_sub (size_sub (1 + length region + 1 + length cluster) (1 + length region)) 1)
            = Some cluster"
    by (simp add: string_substr_def size_sub_def)
  have dr: "(if last str \<noteq> CHR ''/'' then str @ ''/'' else str) = ?full"
    using norm by auto
  show "proxy_set_default_route proxy str =
           Some (proxy\<lparr>default_route := ?full, default_region := region, default_cluster := cluster\<rparr>)"
  proof -
    have p2: "(if last str \<noteq> CHR ''/'' then proxy\<lparr>default_route := str @ ''/''\<rparr>
               else proxy\<lparr>default_route := str\<rparr>) = proxy\<lparr>default_route := ?full\<rparr>"
      using dr by (auto split: if_splits)
    show ?thesis
      unfolding proxy_set_default_route_def using m ne f1 f2 s1 s2
      by (simp add: Let_def p2 split del: if_split cong: if_cong)
  qed
qed


lemma default_route_markAllAsUnused [simp]:
  "default_route (markAllAsUnused p) = default_route p"
  by (simp add: markAllAsUnused_def)

lemma build_loop_empty_route:
  assumes "i \<in> set is" "i < length threads" "default_route (threads ! i) = []"
  shows "build_loop buildConfig builder is threads newConfigs \<noteq> BuildDone t c"
  using assms
proof (induction "is" arbitrary: threads newConfigs builder)
  case Nil
  then show ?case by simp
next
  case (Cons j js)
  show ?case
  proof (cases "length threads \<le> j \<or> default_route (threads ! j) = []")
    case True
    then show ?thesis by (auto simp: Let_def)
  next
    case False
    then have jlt: "j < length threads" and jne: "default_route (threads ! j) \<noteq> []" by auto
    with Cons.prems have ij: "i \<noteq> j" and ijs: "i \<in> set js" by auto
    obtain res proxy1 builder1 where
      bc: "buildConfig builder (markAllAsUnused (threads ! j)) = (res, proxy1, builder1)"
      by (cases "buildConfig builder (markAllAsUnused (threads ! j))") auto
    let ?threads1 = "threads[j := proxy1]"
    have keep: "i < length ?threads1" "default_route (?threads1 ! i) = []"
      using Cons.prems ij by simp_all
    show ?thesis
    proof (cases res)
      case (Inl e)
      with jlt jne bc show ?thesis by (cases e) (simp_all add: Let_def)
    next
      case (Inr cfg)
      with jlt jne bc Cons.IH[OF ijs keep, of builder1 "newConfigs @ [cfg]"] show ?thesis
        by (simp add: Let_def)
    qed
  qed
qed

lemma router_configure_empty_route:
  assumes "i < num_proxies (router_opts router)" "i < length (proxy_threads router)"
    and "default_route (proxy_threads router ! i) = []"
  shows "router_configure newBuilder buildConfig now router input \<noteq> Returned 1 r'"
proof -
  from assms(1) have mem: "i \<in> set [0..<num_proxies (router_opts router)]" by simp
  have nd: "build_loop buildConfig b [0..<num_proxies (router_opts router)]
              (proxy_threads router) [] \<noteq> BuildDone t c" for b t c
    by (rule build_loop_empty_route[OF mem assms(2,3)])
  show ?thesis
    unfolding router_configure_def Let_def
    using nd
    by (auto split: list.splits sum.splits thrown.splits build_result.splits option.splits)
qed

lemma proxy_set_default_route_reject:
  "str = [] \<or> \<not> regex_match str routeRegex \<Longrightarrow> proxy_set_default_route proxy str = Some proxy"
  by (auto simp: proxy_set_default_route_def)


subsection \<open>The default route\<close>

text \<open>
  C8. A string matches the pattern exactly when it is \<^verbatim>\<open>/region/cluster\<close> or
  \<^verbatim>\<open>/region/cluster/\<close> with both segments non-empty and free of slashes. For such a
  string \<^verbatim>\<open>proxy_set_default_route\<close> stores the string, with a slash appended when it
  does not end in one, as the default route, the first segment as the default region and
  the second as the default cluster. A worker constructed with an empty or non-matching
  default route makes every \<^verbatim>\<open>router_configure\<close> that reaches it fail: it never
  returns 1.
\<close>

theorem default_route_parsed:
  "(regex_match str routeRegex \<longleftrightarrow>
      (\<exists>region cluster. region \<noteq> [] \<and> cluster \<noteq> [] \<and>
         CHR ''/'' \<notin> set region \<and> CHR ''/'' \<notin> set cluster \<and>
         (str = ''/'' @ region @ ''/'' @ cluster \<or>
          str = ''/'' @ region @ ''/'' @ cluster @ ''/''))) \<and>
   (\<forall>region cluster. region \<noteq> [] \<and> cluster \<noteq> [] \<and>
         CHR ''/'' \<notin> set region \<and> CHR ''/'' \<notin> set cluster \<and>
         (str = ''/'' @ region @ ''/'' @ cluster \<or>
          str = ''/'' @ region @ ''/'' @ cluster @ ''/'') \<longrightarrow>
      proxy_set_default_route proxy str =
        Some (proxy\<lparr>default_route := (if last str = CHR ''/'' then str else str @ ''/''),
                    default_region := region, default_cluster := cluster\<rparr>)) \<and>
   (str = [] \<or> \<not> regex_match str routeRegex \<longrightarrow>
      (\<forall>options newBuilder buildConfig now router input i r'.
         opts_default_route options = str \<and>
         i < num_proxies (router_opts router) \<and> i < length (proxy_threads router) \<and>
         new_proxy_t options = Some (proxy_threads router ! i) \<longrightarrow>
         router_configure newBuilder buildConfig now router input \<noteq> Returned 1 r'))"
proof (intro conjI allI impI)
  show "regex_match str routeRegex \<longleftrightarrow>
      (\<exists>region cluster. region \<noteq> [] \<and> cluster \<noteq> [] \<and>
         CHR ''/'' \<notin> set region \<and> CHR ''/'' \<notin> set cluster \<and>
         (str = ''/'' @ region @ ''/'' @ cluster \<or>
          str = ''/'' @ region @ ''/'' @ cluster @ ''/''))"
    by (rule routeRegex_shape)
next
  fix region cluster
  assume h: "region \<noteq> [] \<and> cluster \<noteq> [] \<and>
         CHR ''/'' \<notin> set region \<and> CHR ''/'' \<notin> set cluster \<and>
         (str = ''/'' @ region @ ''/'' @ cluster \<or>
          str = ''/'' @ region @ ''/'' @ cluster @ ''/'')"
  then have a: "region \<noteq> []" "cluster \<noteq> []" "CHR ''/'' \<notin> set region" "CHR ''/'' \<notin> set cluster"
    "str = ''/'' @ region @ ''/'' @ cluster \<or> str = ''/'' @ region @ ''/'' @ cluster @ ''/''"
    by blast+
  from proxy_set_default_route_shape(1)[OF a, of proxy] proxy_set_default_route_shape(2)[OF a]
  show "proxy_set_default_route proxy str =
        Some (proxy\<lparr>default_route := (if last str = CHR ''/'' then str else str @ ''/''),
                    default_region := region, default_cluster := cluster\<rparr>)"
    by simp
next
  fix options :: McrouterOptions and router r' :: mcrouter_t
    and newBuilder :: "McrouterOptions \<Rightarrow> string \<Rightarrow> string \<Rightarrow> string \<Rightarrow> string \<Rightarrow> thrown + 'b"
    and buildConfig :: "'b \<Rightarrow> proxy_t \<Rightarrow> (thrown + ProxyConfig) \<times> proxy_t \<times> 'b"
    and now :: "64 word" and input :: string and i :: nat
  assume bad: "str = [] \<or> \<not> regex_match str routeRegex"
    and h: "opts_default_route options = str \<and>
         i < num_proxies (router_opts router) \<and> i < length (proxy_threads router) \<and>
         new_proxy_t options = Some (proxy_threads router ! i)"
  from bad have "proxy_set_default_route (proxy_t_init options) str = Some (proxy_t_init options)"
    by (rule proxy_set_default_route_reject)
  with h have "proxy_threads router ! i = proxy_t_init options"
    by (auto simp: new_proxy_t_def)
  then have "default_route (proxy_threads router ! i) = []"
    by (simp add: proxy_t_init_def)
  with h show "router_configure newBuilder buildConfig now router input \<noteq> Returned 1 r'"
    using router_configure_empty_route by blast
qed

theorem default_route_parsed_witness:
  "regex_match ''/prn/cluster01'' routeRegex \<and>
   proxy_set_default_route (proxy_t_init (scenario_opts 2)) ''/prn/cluster01'' =
     Some ((proxy_t_init (scenario_opts 2))
             \<lparr>default_route := ''/prn/cluster01/'', default_region := ''prn'',
              default_cluster := ''cluster01''\<rparr>) \<and>
   \<not> regex_match ''/prn/'' routeRegex \<and>
   new_proxy_t ((scenario_opts 2)\<lparr>opts_default_route := ''/prn/''\<rparr>) =
     Some (proxy_t_init ((scenario_opts 2)\<lparr>opts_default_route := ''/prn/''\<rparr>)) \<and>
   router_configure scenario_builder scenario_buildConfig 0
     \<lparr>router_opts = (scenario_opts 2)\<lparr>opts_default_route := ''/prn/'', num_proxies := 1\<rparr>,
      proxy_threads = [proxy_t_init ((scenario_opts 2)\<lparr>opts_default_route := ''/prn/''\<rparr>)]\<rparr> []
     \<noteq> Returned 1
          \<lparr>router_opts = (scenario_opts 2)\<lparr>opts_default_route := ''/prn/'', num_proxies := 1\<rparr>,
           proxy_threads = [proxy_t_init ((scenario_opts 2)\<lparr>opts_default_route := ''/prn/''\<rparr>)]\<rparr>"
proof -
  let ?o = "(scenario_opts 2)\<lparr>opts_default_route := ''/prn/''\<rparr>"
  let ?R = "\<lparr>router_opts = (scenario_opts 2)\<lparr>opts_default_route := ''/prn/'', num_proxies := 1\<rparr>,
      proxy_threads = [proxy_t_init ?o]\<rparr>"
  have m: "regex_match ''/prn/cluster01'' routeRegex" by (simp add: routeRegex_def)
  have n: "\<not> regex_match ''/prn/'' routeRegex" by (simp add: routeRegex_def)
  have c: "new_proxy_t ?o = Some (proxy_t_init ?o)"
    using n by (simp add: new_proxy_t_def proxy_set_default_route_def scenario_opts_def)
  have sh: "''prn'' \<noteq> [] \<and> ''cluster01'' \<noteq> [] \<and>
         CHR ''/'' \<notin> set ''prn'' \<and> CHR ''/'' \<notin> set ''cluster01'' \<and>
         (''/prn/cluster01'' = ''/'' @ ''prn'' @ ''/'' @ ''cluster01'' \<or>
          ''/prn/cluster01'' = ''/'' @ ''prn'' @ ''/'' @ ''cluster01'' @ ''/'')" by simp
  have h: "opts_default_route ?o = ''/prn/'' \<and> 0 < num_proxies (router_opts ?R) \<and>
           0 < length (proxy_threads ?R) \<and> new_proxy_t ?o = Some (proxy_threads ?R ! 0)"
    using c by simp
  from default_route_parsed[of "''/prn/cluster01''" "proxy_t_init (scenario_opts 2)",
         THEN conjunct2, THEN conjunct1, rule_format, of "''prn''" "''cluster01''", OF sh]
  have a: "proxy_set_default_route (proxy_t_init (scenario_opts 2)) ''/prn/cluster01'' =
     Some ((proxy_t_init (scenario_opts 2))
             \<lparr>default_route := ''/prn/cluster01/'', default_region := ''prn'',
              default_cluster := ''cluster01''\<rparr>)"
    by simp
  from default_route_parsed[of "''/prn/''" "proxy_t_init (scenario_opts 2)",
         THEN conjunct2, THEN conjunct2, rule_format, OF disjI2, OF n h]
  have b: "router_configure scenario_builder scenario_buildConfig 0 ?R [] \<noteq> Returned 1 ?R"
    .
  from m a n c b show ?thesis by blast
qed

text \<open>
  C10. For an empty string and for a string that does not match the pattern,
  \<^verbatim>\<open>proxy_set_default_route\<close> returns normally and leaves the worker, hence its default
  route, region and cluster, as it was.
\<close>

theorem default_route_rejected_unchanged:
  "str = [] \<or> \<not> regex_match str routeRegex \<Longrightarrow> proxy_set_default_route proxy str = Some proxy"
  by (rule proxy_set_default_route_reject)

theorem default_route_rejected_unchanged_witness:
  "\<not> regex_match ''prn/cluster01'' routeRegex \<and>
   proxy_set_default_route
     ((proxy_t_init (scenario_opts 2))
        \<lparr>default_route := ''/a/b/'', default_region := ''a'', default_cluster := ''b''\<rparr>)
     ''prn/cluster01'' =
   Some ((proxy_t_init (scenario_opts 2))
        \<lparr>default_route := ''/a/b/'', default_region := ''a'', default_cluster := ''b''\<rparr>) \<and>
   proxy_set_default_route (proxy_t_init (scenario_opts 2)) [] = Some (proxy_t_init (scenario_opts 2))"
proof -
  have n: "\<not> regex_match ''prn/cluster01'' routeRegex" by (simp add: routeRegex_def)
  from n default_route_rejected_unchanged[of "''prn/cluster01''"]
       default_route_rejected_unchanged[of "[]" "proxy_t_init (scenario_opts 2)"]
  show ?thesis by blast
qed


subsection \<open>The shadowing policy\<close>

















subsection \<open>Reconfiguration\<close>

lemma builds_length [simp]: "length (builds bc b ws) = length ws"
  by (induction ws arbitrary: b) (auto split: prod.splits)












lemma router_configure_no_proxies:
  assumes "num_proxies (router_opts router) = 0" and "proxy_threads router \<noteq> []"
    and "newBuilder (router_opts router) (default_route (hd (proxy_threads router)))
           (default_region (hd (proxy_threads router)))
           (default_cluster (hd (proxy_threads router))) input = Inr builder"
  shows "router_configure newBuilder buildConfig now router input =
           (if constantly_reload_configs (router_opts router) then Returned 1 router
            else UndefinedBehaviour)"
  using assms by (cases "proxy_threads router") (simp_all add: router_configure_def)




subsection \<open>What the statistics leave alone\<close>

lemma stat_incr_frame [simp]:
  "opts (stat_incr p s n) = opts p"
  "heap (stat_incr p s n) = heap p"
  "numRequestsProcessing (stat_incr p s n) = numRequestsProcessing p"
  "waitingRequests (stat_incr p s n) = waitingRequests p"
  "fiberTasks (stat_incr p s n) = fiberTasks p"
  "config (stat_incr p s n) = config p"
  "s' \<noteq> s \<Longrightarrow> stats (stat_incr p s n) s' = stats p s'"
  by (simp_all add: stat_incr_def)

lemma stat_decr_frame [simp]:
  "opts (stat_decr p s n) = opts p"
  "heap (stat_decr p s n) = heap p"
  "numRequestsProcessing (stat_decr p s n) = numRequestsProcessing p"
  "waitingRequests (stat_decr p s n) = waitingRequests p"
  "fiberTasks (stat_decr p s n) = fiberTasks p"
  "config (stat_decr p s n) = config p"
  "stats (stat_decr p s n) s = stats p s - n"
  "s' \<noteq> s \<Longrightarrow> stats (stat_decr p s n) s' = stats p s'"
  by (simp_all add: stat_decr_def)

lemma cmd_stat_incr_frame [simp]:
  "opts (cmd_stat_incr p x) = opts p"
  "heap (cmd_stat_incr p x) = heap p"
  "numRequestsProcessing (cmd_stat_incr p x) = numRequestsProcessing p"
  "waitingRequests (cmd_stat_incr p x) = waitingRequests p"
  "fiberTasks (cmd_stat_incr p x) = fiberTasks p"
  "config (cmd_stat_incr p x) = config p"
  "stats (cmd_stat_incr p x) proxy_reqs_waiting_stat = stats p proxy_reqs_waiting_stat"
  by (simp_all add: cmd_stat_incr_def split: mc_op_t.splits)

lemma processRequest_fiber:
  assumes "heap p r = Some q" "\<not> processing q" "0 < refcount q"
    and "op (orig_req q) \<noteq> mc_op_stats" "op (orig_req q) \<noteq> mc_op_get_service_info"
  shows "\<exists>p'. processRequest E r p = Some p' \<and>
           heap p' = (heap p)(r \<mapsto> q\<lparr>processing := True, refcount := refcount q + 1\<rparr>) \<and>
           numRequestsProcessing p' = numRequestsProcessing p + 1 \<and>
           waitingRequests p' = waitingRequests p \<and>
           fiberTasks p' = fiberTasks p @ [r] \<and>
           opts p' = opts p \<and>
           stats p' proxy_reqs_waiting_stat = stats p proxy_reqs_waiting_stat"
  using assms
  by (simp add: processRequest_def routeHandlesProcessRequest_def proxy_request_incref_def Let_def)

lemma proxy_request_decref_shared:
  assumes "heap p r = Some q" "1 < refcount q"
  shows "proxy_request_decref E r p = Some (p\<lparr>heap := (heap p)(r \<mapsto> q\<lparr>refcount := refcount q - 1\<rparr>)\<rparr>)"
  using assms by (simp add: proxy_request_decref.simps Let_def)

lemma unat_inc:
  fixes x y :: "'a::len word"
  assumes "x < y"
  shows "unat (x + 1) = unat x + 1"
proof -
  have a: "unat x < unat y" using assms by (simp add: word_less_nat_alt)
  have b: "unat y < 2 ^ LENGTH('a)" by (rule unsigned_less)
  from a b have "Suc (unat x) < 2 ^ LENGTH('a)" by linarith
  then have "unat x + unat (1 :: 'a word) < 2 ^ LENGTH('a)" by simp
  then show ?thesis using unat_add_lem[of x 1] by simp
qed


subsection \<open>The pump\<close>

lemma pump_idle:
  "\<not> (numRequestsProcessing p < proxy_max_inflight_requests (opts p) \<and> waitingRequests p \<noteq> [])
   \<Longrightarrow> pump E p = Some p"
  by (subst pump.simps) auto

lemma pump_admits_0:
  "\<not> (numRequestsProcessing p < proxy_max_inflight_requests (opts p) \<and> waitingRequests p \<noteq> [])
   \<Longrightarrow> pump_admits p = 0"
  by (auto simp: pump_admits_def word_less_nat_alt)

lemma pump_round:
  assumes c: "numRequestsProcessing p < proxy_max_inflight_requests (opts p)"
    and w: "waitingRequests p = r # rs"
    and q: "heap p r = Some q" "\<not> processing q" "0 < refcount q"
      "op (orig_req q) \<noteq> mc_op_stats" "op (orig_req q) \<noteq> mc_op_get_service_info"
  shows "\<exists>p4. pump E p = pump E p4 \<and>
           heap p4 = (heap p)(r \<mapsto> q\<lparr>processing := True\<rparr>) \<and>
           numRequestsProcessing p4 = numRequestsProcessing p + 1 \<and>
           waitingRequests p4 = rs \<and>
           fiberTasks p4 = fiberTasks p @ [r] \<and>
           opts p4 = opts p \<and>
           stats p4 proxy_reqs_waiting_stat = stats p proxy_reqs_waiting_stat - 1"
proof -
  let ?p2 = "stat_decr (p\<lparr>waitingRequests := tl (waitingRequests p)\<rparr>) proxy_reqs_waiting_stat 1"
  have h2: "heap ?p2 r = Some q" using q(1) by simp
  from processRequest_fiber[OF h2 q(2-5), of E] obtain p3 where
    p3: "processRequest E r ?p2 = Some p3"
    and f3: "heap p3 = (heap p)(r \<mapsto> q\<lparr>processing := True, refcount := refcount q + 1\<rparr>)"
      "numRequestsProcessing p3 = numRequestsProcessing p + 1"
      "waitingRequests p3 = rs" "fiberTasks p3 = fiberTasks p @ [r]" "opts p3 = opts p"
      "stats p3 proxy_reqs_waiting_stat = stats p proxy_reqs_waiting_stat - 1"
    using w by auto
  let ?q3 = "q\<lparr>processing := True, refcount := refcount q + 1\<rparr>"
  have h3: "heap p3 r = Some ?q3" using f3(1) by simp
  have r3: "1 < refcount ?q3" using q(3) by simp
  let ?p4 = "p3\<lparr>heap := (heap p3)(r \<mapsto> ?q3\<lparr>refcount := refcount ?q3 - 1\<rparr>)\<rparr>"
  have p4: "proxy_request_decref E r p3 = Some ?p4"
    by (rule proxy_request_decref_shared[OF h3 r3])
  have "pump E p = pump E ?p4"
    using c w p3 p4 by (subst pump.simps) (simp add: Let_def)
  moreover have "heap ?p4 = (heap p)(r \<mapsto> q\<lparr>processing := True\<rparr>)"
    using f3(1) by simp
  ultimately show ?thesis using f3 by (intro exI[of _ ?p4]) simp
qed

lemma pump_ready:
  assumes "waiters_ready p"
  shows "\<exists>p'. pump E p = Some p' \<and>
           waitingRequests p' = drop (pump_admits p) (waitingRequests p) \<and>
           fiberTasks p' = fiberTasks p @ take (pump_admits p) (waitingRequests p) \<and>
           numRequestsProcessing p' = numRequestsProcessing p + of_nat (pump_admits p) \<and>
           stats p' proxy_reqs_waiting_stat =
             stats p proxy_reqs_waiting_stat - of_nat (pump_admits p) \<and>
           opts p' = opts p \<and>
           heap p' = (\<lambda>r. if r \<in> set (take (pump_admits p) (waitingRequests p))
                           then map_option (\<lambda>q. q\<lparr>processing := True\<rparr>) (heap p r)
                           else heap p r)"
  using assms
proof (induction "waitingRequests p" arbitrary: p)
  case Nil
  then have idle: "\<not> (numRequestsProcessing p < proxy_max_inflight_requests (opts p) \<and>
                       waitingRequests p \<noteq> [])" by simp
  from pump_idle[OF idle] pump_admits_0[OF idle] show ?case by simp
next
  case (Cons r rs)
  from Cons.hyps(2) have w: "waitingRequests p = r # rs" by simp
  show ?case
  proof (cases "numRequestsProcessing p < proxy_max_inflight_requests (opts p)")
    case False
    then have idle: "\<not> (numRequestsProcessing p < proxy_max_inflight_requests (opts p) \<and>
                       waitingRequests p \<noteq> [])" by simp
    from pump_idle[OF idle] pump_admits_0[OF idle] show ?thesis by simp
  next
    case True
    from Cons.prems w obtain q where q: "heap p r = Some q" "\<not> processing q" "0 < refcount q"
      "op (orig_req q) \<noteq> mc_op_stats" "op (orig_req q) \<noteq> mc_op_get_service_info"
      and d: "r \<notin> set rs" "distinct rs"
      and rest: "list_all (\<lambda>r. case heap p r of
                      None \<Rightarrow> False
                    | Some q \<Rightarrow> \<not> processing q \<and> 0 < refcount q \<and>
                                op (orig_req q) \<noteq> mc_op_stats \<and>
                                op (orig_req q) \<noteq> mc_op_get_service_info) rs"
      by (auto simp: waiters_ready_def split: option.splits)
    from pump_round[OF True w q, of E] obtain p4 where
      e: "pump E p = pump E p4"
      and f: "heap p4 = (heap p)(r \<mapsto> q\<lparr>processing := True\<rparr>)"
        "numRequestsProcessing p4 = numRequestsProcessing p + 1"
        "waitingRequests p4 = rs" "fiberTasks p4 = fiberTasks p @ [r]" "opts p4 = opts p"
        "stats p4 proxy_reqs_waiting_stat = stats p proxy_reqs_waiting_stat - 1"
      by blast
    have ready4: "waiters_ready p4"
      unfolding waiters_ready_def f(3)
    proof
      show "distinct rs" by (rule d(2))
      have "\<forall>x\<in>set rs. heap p4 x = heap p x" using d(1) f(1) by auto
      with rest show "list_all (\<lambda>r. case heap p4 r of
                      None \<Rightarrow> False
                    | Some q \<Rightarrow> \<not> processing q \<and> 0 < refcount q \<and>
                                op (orig_req q) \<noteq> mc_op_stats \<and>
                                op (orig_req q) \<noteq> mc_op_get_service_info) rs"
        by (simp add: list_all_iff)
    qed
    have lt: "unat (numRequestsProcessing p) < unat (proxy_max_inflight_requests (opts p))"
      using True by (simp add: word_less_nat_alt)
    have un: "unat (numRequestsProcessing p + 1) = unat (numRequestsProcessing p) + 1"
      using True by (rule unat_inc)
    have k: "pump_admits p = Suc (pump_admits p4)"
      using lt un by (simp add: pump_admits_def f w)
    from Cons.hyps(1)[OF f(3)[symmetric] ready4] obtain p' where
      r: "pump E p4 = Some p'"
      and g: "waitingRequests p' = drop (pump_admits p4) rs"
        "fiberTasks p' = (fiberTasks p @ [r]) @ take (pump_admits p4) rs"
        "numRequestsProcessing p' = numRequestsProcessing p + 1 + of_nat (pump_admits p4)"
        "stats p' proxy_reqs_waiting_stat =
             stats p proxy_reqs_waiting_stat - 1 - of_nat (pump_admits p4)"
        "opts p' = opts p"
        "heap p' = (\<lambda>x. if x \<in> set (take (pump_admits p4) rs)
                           then map_option (\<lambda>q. q\<lparr>processing := True\<rparr>) (heap p4 x)
                           else heap p4 x)"
      unfolding f by blast
    have notin: "r \<notin> set (take (pump_admits p4) rs)"
      using d(1) by (meson in_set_takeD)
    have hp: "heap p' = (\<lambda>x. if x \<in> set (take (pump_admits p) (waitingRequests p))
                           then map_option (\<lambda>q. q\<lparr>processing := True\<rparr>) (heap p x)
                           else heap p x)"
    proof
      fix x
      show "heap p' x = (if x \<in> set (take (pump_admits p) (waitingRequests p))
                           then map_option (\<lambda>q. q\<lparr>processing := True\<rparr>) (heap p x)
                           else heap p x)"
      proof (cases "x = r")
        case True
        with g(6) notin f(1) q(1) k w show ?thesis by simp
      next
        case False
        with g(6) f(1) k w show ?thesis by simp
      qed
    qed
    from e r g(1-5) hp k w show ?thesis by simp
  qed
qed


lemma dispatchRequest_queues:
  assumes "heap p r = Some q" "rateLimited p q" "0 < refcount q"
  shows "dispatchRequest E r p =
           Some (stat_incr (p\<lparr>heap := (heap p)(r \<mapsto> q\<lparr>refcount := refcount q + 1\<rparr>),
                              waitingRequests := waitingRequests p @ [r]\<rparr>)
                   proxy_reqs_waiting_stat 1)"
  using assms by (simp add: dispatchRequest_def proxy_request_incref_def Let_def)

text \<open>
  C7. The pump does nothing unless fewer requests than the limit are in flight and a
  request waits. Otherwise one round removes the head of \<open>waitingRequests\<close>, decrements
  the waiting statistic, calls \<^verbatim>\<open>processRequest\<close> on the head, then
  \<^verbatim>\<open>proxy_request_decref\<close>, and goes on. On well-formed waiters the pump returns, having
  admitted the first \<open>pump_admits p\<close> waiters in queue order: they are submitted to the
  fibers in that order, the rest stays queued in order, the counter grows and the waiting
  statistic falls by that number, and each admitted request is marked as processing with
  the reference count it had (the task's reference taken, the queue's released).
  \<^verbatim>\<open>dispatchRequest\<close> queues a rate-limited request at the tail with one more reference.
\<close>

theorem pump_admits_waiters_in_fifo_order:
  "(\<not> (numRequestsProcessing p < proxy_max_inflight_requests (opts p) \<and> waitingRequests p \<noteq> [])
      \<longrightarrow> pump E p = Some p) \<and>
   (numRequestsProcessing p < proxy_max_inflight_requests (opts p) \<and> waitingRequests p = r # rs
      \<longrightarrow> pump E p =
            Option.bind
              (processRequest E r
                 (stat_decr (p\<lparr>waitingRequests := rs\<rparr>) proxy_reqs_waiting_stat 1))
              (\<lambda>p3. Option.bind (proxy_request_decref E r p3) (pump E))) \<and>
   (waiters_ready p \<longrightarrow>
      (\<exists>p'. pump E p = Some p' \<and>
         waitingRequests p' = drop (pump_admits p) (waitingRequests p) \<and>
         fiberTasks p' = fiberTasks p @ take (pump_admits p) (waitingRequests p) \<and>
         numRequestsProcessing p' = numRequestsProcessing p + of_nat (pump_admits p) \<and>
         stats p' proxy_reqs_waiting_stat =
           stats p proxy_reqs_waiting_stat - of_nat (pump_admits p) \<and>
         heap p' = (\<lambda>x. if x \<in> set (take (pump_admits p) (waitingRequests p))
                         then map_option (\<lambda>q. q\<lparr>processing := True\<rparr>) (heap p x)
                         else heap p x) \<and>
         \<not> (numRequestsProcessing p' < proxy_max_inflight_requests (opts p') \<and>
            waitingRequests p' \<noteq> []))) \<and>
   (heap p x = Some q \<and> rateLimited p q \<and> 0 < refcount q \<longrightarrow>
      (\<exists>p'. dispatchRequest E x p = Some p' \<and>
         waitingRequests p' = waitingRequests p @ [x] \<and>
         heap p' = (heap p)(x \<mapsto> q\<lparr>refcount := refcount q + 1\<rparr>) \<and>
         stats p' proxy_reqs_waiting_stat = stats p proxy_reqs_waiting_stat + 1))"
proof (intro conjI impI)
  assume "\<not> (numRequestsProcessing p < proxy_max_inflight_requests (opts p) \<and> waitingRequests p \<noteq> [])"
  then show "pump E p = Some p" by (rule pump_idle)
next
  assume "numRequestsProcessing p < proxy_max_inflight_requests (opts p) \<and> waitingRequests p = r # rs"
  then show "pump E p =
            Option.bind
              (processRequest E r
                 (stat_decr (p\<lparr>waitingRequests := rs\<rparr>) proxy_reqs_waiting_stat 1))
              (\<lambda>p3. Option.bind (proxy_request_decref E r p3) (pump E))"
    by (subst pump.simps) (simp add: Let_def)
next
  assume ready: "waiters_ready p"
  from pump_ready[OF ready, of E] obtain p' where
    r: "pump E p = Some p'"
    and g: "waitingRequests p' = drop (pump_admits p) (waitingRequests p)"
      "fiberTasks p' = fiberTasks p @ take (pump_admits p) (waitingRequests p)"
      "numRequestsProcessing p' = numRequestsProcessing p + of_nat (pump_admits p)"
      "stats p' proxy_reqs_waiting_stat = stats p proxy_reqs_waiting_stat - of_nat (pump_admits p)"
      "opts p' = opts p"
      "heap p' = (\<lambda>x. if x \<in> set (take (pump_admits p) (waitingRequests p))
                         then map_option (\<lambda>q. q\<lparr>processing := True\<rparr>) (heap p x)
                         else heap p x)"
    by blast
  have fin: "\<not> (numRequestsProcessing p' < proxy_max_inflight_requests (opts p') \<and>
            waitingRequests p' \<noteq> [])"
  proof
    assume a: "numRequestsProcessing p' < proxy_max_inflight_requests (opts p') \<and>
            waitingRequests p' \<noteq> []"
    let ?M = "proxy_max_inflight_requests (opts p)"
    let ?n = "numRequestsProcessing p"
    from a g(1) have k1: "pump_admits p < length (waitingRequests p)" by simp
    then have k2: "pump_admits p = unat ?M - unat ?n"
      by (simp add: pump_admits_def)
    show False
    proof (cases "?n \<le> ?M")
      case True
      from unat_sub[OF True] have "unat ?M - unat ?n = unat (?M - ?n)" by simp
      then have "(of_nat (pump_admits p) :: 64 word) = ?M - ?n" using k2 by simp
      then have "?n + of_nat (pump_admits p) = ?M" by simp
      with a g(3,5) show False by simp
    next
      case False
      then have "unat ?M - unat ?n = 0" by (simp add: word_le_nat_alt)
      with k2 a g(3,5) False show False by (auto simp: word_less_nat_alt word_le_nat_alt)
    qed
  qed
  from r g fin show "\<exists>p'. pump E p = Some p' \<and>
         waitingRequests p' = drop (pump_admits p) (waitingRequests p) \<and>
         fiberTasks p' = fiberTasks p @ take (pump_admits p) (waitingRequests p) \<and>
         numRequestsProcessing p' = numRequestsProcessing p + of_nat (pump_admits p) \<and>
         stats p' proxy_reqs_waiting_stat =
           stats p proxy_reqs_waiting_stat - of_nat (pump_admits p) \<and>
         heap p' = (\<lambda>x. if x \<in> set (take (pump_admits p) (waitingRequests p))
                         then map_option (\<lambda>q. q\<lparr>processing := True\<rparr>) (heap p x)
                         else heap p x) \<and>
         \<not> (numRequestsProcessing p' < proxy_max_inflight_requests (opts p') \<and>
            waitingRequests p' \<noteq> [])"
    by blast
next
  assume h: "heap p x = Some q \<and> rateLimited p q \<and> 0 < refcount q"
  then have "dispatchRequest E x p =
           Some (stat_incr (p\<lparr>heap := (heap p)(x \<mapsto> q\<lparr>refcount := refcount q + 1\<rparr>),
                              waitingRequests := waitingRequests p @ [x]\<rparr>)
                   proxy_reqs_waiting_stat 1)"
    using dispatchRequest_queues by blast
  then show "\<exists>p'. dispatchRequest E x p = Some p' \<and>
         waitingRequests p' = waitingRequests p @ [x] \<and>
         heap p' = (heap p)(x \<mapsto> q\<lparr>refcount := refcount q + 1\<rparr>) \<and>
         stats p' proxy_reqs_waiting_stat = stats p proxy_reqs_waiting_stat + 1"
    by (simp add: stat_incr_def)
qed

theorem pump_admits_waiters_in_fifo_order_witness:
  "waiters_ready scenario_queued \<and>
   (\<exists>p'. pump scenario_externals scenario_queued = Some p' \<and>
      waitingRequests p' = [5] \<and> fiberTasks p' = [3, 4] \<and>
      numRequestsProcessing p' = 2 \<and> stats p' proxy_reqs_waiting_stat = 1 \<and>
      map_option processing (heap p' 3) = Some True \<and>
      map_option refcount (heap p' 3) = Some 1 \<and>
      map_option processing (heap p' 5) = Some False \<and>
      pump scenario_externals p' = Some p')"
proof -
  have ready: "waiters_ready scenario_queued"
    by (simp add: waiters_ready_def scenario_queued_def scenario_request_def request_msg_def)
  have k: "pump_admits scenario_queued = 2"
    by (simp add: pump_admits_def scenario_queued_def proxy_t_init_def scenario_opts_def)
  note T = pump_admits_waiters_in_fifo_order[of scenario_queued scenario_externals]
  from T[THEN conjunct2, THEN conjunct2, THEN conjunct1, rule_format, OF ready]
  obtain p' where r: "pump scenario_externals scenario_queued = Some p'"
    and g: "waitingRequests p' = drop 2 (waitingRequests scenario_queued)"
      "fiberTasks p' = fiberTasks scenario_queued @ take 2 (waitingRequests scenario_queued)"
      "numRequestsProcessing p' = numRequestsProcessing scenario_queued + of_nat 2"
      "stats p' proxy_reqs_waiting_stat = stats scenario_queued proxy_reqs_waiting_stat - of_nat 2"
      "heap p' = (\<lambda>x. if x \<in> set (take 2 (waitingRequests scenario_queued))
                         then map_option (\<lambda>q. q\<lparr>processing := True\<rparr>) (heap scenario_queued x)
                         else heap scenario_queued x)"
      "\<not> (numRequestsProcessing p' < proxy_max_inflight_requests (opts p') \<and>
            waitingRequests p' \<noteq> [])"
    unfolding k by blast
  from pump_admits_waiters_in_fifo_order[of p' scenario_externals, THEN conjunct1, rule_format, OF g(6)]
  have idle: "pump scenario_externals p' = Some p'" .
  from g(1-5) have
    "waitingRequests p' = [5]" "fiberTasks p' = [3, 4]"
    "numRequestsProcessing p' = 2" "stats p' proxy_reqs_waiting_stat = 1"
    "map_option processing (heap p' 3) = Some True"
    "map_option refcount (heap p' 3) = Some 1"
    "map_option processing (heap p' 5) = Some False"
    by (simp_all add: scenario_queued_def proxy_t_init_def scenario_request_def)
  with ready r idle show ?thesis by blast
qed


subsection \<open>The in-flight counter\<close>

lemma processRequest_Some:
  assumes "processRequest E r p = Some p'"
    and "heap p r = Some q"
    and "op (orig_req q) \<noteq> mc_op_stats" "op (orig_req q) \<noteq> mc_op_get_service_info"
  shows "\<not> processing q \<and> 0 < refcount q \<and>
         heap p' = (heap p)(r \<mapsto> q\<lparr>processing := True, refcount := refcount q + 1\<rparr>) \<and>
         numRequestsProcessing p' = numRequestsProcessing p + 1 \<and>
         waitingRequests p' = waitingRequests p \<and>
         fiberTasks p' = fiberTasks p @ [r] \<and>
         opts p' = opts p"
proof -
  have np: "\<not> processing q" using assms(1,2) by (auto simp: processRequest_def)
  have rc: "0 < refcount q"
  proof (rule ccontr)
    assume "\<not> 0 < refcount q"
    with assms(2-4) np have "processRequest E r p = None"
      by (simp add: processRequest_def routeHandlesProcessRequest_def proxy_request_incref_def Let_def)
    with assms(1) show False by simp
  qed
  from processRequest_fiber[OF assms(2) np rc assms(3,4), of E] assms(1) np rc
  show ?thesis by auto
qed

lemma live_processing_upd:
  "live_processing (p\<lparr>heap := (heap p)(r \<mapsto> q)\<rparr>) =
     (if processing q \<and> 0 < refcount q then insert r (live_processing p)
      else live_processing p - {r})"
  by (auto simp: live_processing_def)

lemma live_processing_del:
  "live_processing (p\<lparr>heap := (heap p)(r := None)\<rparr>) = live_processing p - {r}"
  by (auto simp: live_processing_def)

lemma live_processing_cong:
  "heap p' = heap p \<Longrightarrow> live_processing p' = live_processing p"
  by (simp add: live_processing_def)

lemma live_processing_finite: "finite (dom (heap p)) \<Longrightarrow> finite (live_processing p)"
  by (rule finite_subset[of _ "dom (heap p)"]) (auto simp: live_processing_def)

lemma inflight_inv_cong:
  assumes "inflight_inv M p" "heap p' = heap p" "opts p' = opts p"
    "numRequestsProcessing p' = numRequestsProcessing p"
  shows "inflight_inv M p'"
  using assms live_processing_cong[OF assms(2)] by (simp add: inflight_inv_def)

lemma inflight_inv_upd_same:
  assumes "inflight_inv M p" "heap p r = Some q" "heap p' = (heap p)(r \<mapsto> q')"
    and "processing q' = processing q" "(0 < refcount q') = (0 < refcount q)"
    and "orig_req q' = orig_req q"
    and "opts p' = opts p" "numRequestsProcessing p' = numRequestsProcessing p"
  shows "inflight_inv M p'"
proof -
  have "live_processing p' = live_processing p"
    using assms(2-5) by (auto simp: live_processing_def)
  moreover have "dom (heap p') = dom (heap p)" using assms(2,3) by auto
  ultimately show ?thesis using assms by (auto simp: inflight_inv_def)
qed

lemma inflight_inv_processRequest:
  assumes inv: "inflight_inv M p" and lt: "numRequestsProcessing p < M"
    and run: "processRequest E r p = Some p'"
  shows "inflight_inv M p' \<and> dead_kept p p'"
proof -
  from run obtain q where q: "heap p r = Some q"
    by (auto simp: processRequest_def split: bind_splits)
  from inv q have ops: "op (orig_req q) \<noteq> mc_op_stats" "op (orig_req q) \<noteq> mc_op_get_service_info"
    by (auto simp: inflight_inv_def)
  from processRequest_Some[OF run q ops]
  have f: "\<not> processing q" "0 < refcount q"
    "heap p' = (heap p)(r \<mapsto> q\<lparr>processing := True, refcount := refcount q + 1\<rparr>)"
    "numRequestsProcessing p' = numRequestsProcessing p + 1" "opts p' = opts p"
    by simp_all
  have notin: "r \<notin> live_processing p" using q f(1) by (simp add: live_processing_def)
  have lp: "live_processing p' = insert r (live_processing p)"
    using f(2,3) q by (auto simp: live_processing_def)
  have fin: "finite (live_processing p)"
    using inv by (simp add: inflight_inv_def live_processing_finite)
  have card: "card (live_processing p') = card (live_processing p) + 1"
    using lp notin fin by simp
  have un: "unat (numRequestsProcessing p + 1) = unat (numRequestsProcessing p) + 1"
    using lt by (rule unat_inc)
  have le: "numRequestsProcessing p + 1 \<le> M" using lt by (rule inc_le)
  have dom: "dom (heap p') = insert r (dom (heap p))" using f(3) by auto
  have "inflight_inv M p'"
    using inv f(3-5) card un le dom q
    by (auto simp: inflight_inv_def)
  moreover have "dead_kept p p'"
    using f(2,3) q by (auto simp: dead_kept_def)
  ultimately show ?thesis by simp
qed

lemma dead_kept_refl: "dead_kept p p"
  by (simp add: dead_kept_def)

lemma dead_kept_trans: "dead_kept p p1 \<Longrightarrow> dead_kept p1 p2 \<Longrightarrow> dead_kept p p2"
  by (simp add: dead_kept_def)

lemma dead_kept_cong: "heap p1 = heap p \<Longrightarrow> dead_kept p p1"
  by (simp add: dead_kept_def)


lemma pump_decref_inflight_inv:
  "inflight_inv M p \<longrightarrow>
     (\<forall>p'. pump E p = Some p' \<longrightarrow> inflight_inv M p' \<and> dead_kept p p')"
  "inflight_inv M q0 \<longrightarrow>
     (\<forall>p'. proxy_request_decref E' r q0 = Some p' \<longrightarrow> inflight_inv M p' \<and> dead_kept q0 p')"
proof (induct E p and E' r q0 rule: pump_proxy_request_decref.induct)
  case (1 E p)
  show ?case
  proof (intro impI allI)
    fix p' assume inv: "inflight_inv M p" and run: "pump E p = Some p'"
    show "inflight_inv M p' \<and> dead_kept p p'"
    proof (cases "numRequestsProcessing p < proxy_max_inflight_requests (opts p) \<and>
                  waitingRequests p \<noteq> []")
      case False
      with run have "p' = p" by (subst (asm) pump.simps) auto
      with inv show ?thesis by (simp add: dead_kept_refl)
    next
      case True
      let ?x = "hd (waitingRequests p)"
      let ?xb = "stat_decr (p\<lparr>waitingRequests := tl (waitingRequests p)\<rparr>) proxy_reqs_waiting_stat 1"
      from run True obtain a aa where
        a: "processRequest E ?x ?xb = Some a" and aa: "proxy_request_decref E ?x a = Some aa"
        and p': "pump E aa = Some p'"
        by (subst (asm) pump.simps) (auto simp: Let_def split: bind_splits)
      have invb: "inflight_inv M ?xb" using inv by (rule inflight_inv_cong) simp_all
      have ltb: "numRequestsProcessing ?xb < M" using True inv by (simp add: inflight_inv_def)
      from inflight_inv_processRequest[OF invb ltb a]
      have inva: "inflight_inv M a" and dka: "dead_kept ?xb a" by simp_all
      from 1(1)[OF True refl refl refl a] inva aa
      have invaa: "inflight_inv M aa" and dkaa: "dead_kept a aa" by blast+
      from 1(2)[OF True refl refl refl a aa] invaa p'
      have invp: "inflight_inv M p'" and dkp: "dead_kept aa p'" by blast+
      have "dead_kept p ?xb" by (rule dead_kept_cong) simp
      with dka dkaa dkp have "dead_kept p p'" by (blast intro: dead_kept_trans)
      with invp show ?thesis by simp
    qed
  qed
next
  case (2 E preq p)
  show ?case
  proof (intro impI allI)
    fix p' assume inv: "inflight_inv M p" and run: "proxy_request_decref E preq p = Some p'"
    from run obtain a where a: "heap p preq = Some a" and pos: "\<not> refcount a \<le> 0"
      by (subst (asm) proxy_request_decref.simps) (auto split: bind_splits if_splits)
    from run a pos obtain aa where
      aa: "(if refcount a = 1 \<and> sync (opts p) \<and> reply_state a = REPLY_STATE_REPLIED
            then enqueueReply preq p else Some p) = Some aa"
      by (subst (asm) proxy_request_decref.simps) (auto split: bind_splits)
    define x where "x = (if refcount a = 1 \<and> has_reqComplete a
          then aa\<lparr>completedRequests := completedRequests aa @ [preq]\<rparr> else aa)"
    define xa where "xa = x\<lparr>heap := (heap x)(preq \<mapsto> a\<lparr>refcount := refcount a - 1\<rparr>)\<rparr>"
    have fx: "heap x = heap p" "opts x = opts p" "numRequestsProcessing x = numRequestsProcessing p"
      using aa by (auto simp: x_def enqueueReply_def split: if_splits bind_splits)
    have fxa: "heap xa = (heap p)(preq \<mapsto> a\<lparr>refcount := refcount a - 1\<rparr>)" "opts xa = opts p"
      "numRequestsProcessing xa = numRequestsProcessing p"
      using fx by (simp_all add: xa_def)
    have dk_xa: "dead_kept p xa"
      using fxa(1) a pos by (auto simp: dead_kept_def)
    show "inflight_inv M p' \<and> dead_kept p p'"
    proof (cases "0 < refcount a - 1")
      case True
      with run a pos aa have p': "p' = xa"
        by (subst (asm) proxy_request_decref.simps) (simp add: Let_def xa_def x_def)
      have "inflight_inv M xa"
        using inv a fxa(1) _ _ _ fxa(2,3)
      proof (rule inflight_inv_upd_same)
        show "processing (a\<lparr>refcount := refcount a - 1\<rparr>) = processing a" by simp
        show "(0 < refcount (a\<lparr>refcount := refcount a - 1\<rparr>)) = (0 < refcount a)"
          using True pos by simp
        show "orig_req (a\<lparr>refcount := refcount a - 1\<rparr>) = orig_req a" by simp
      qed
      with p' dk_xa show ?thesis by simp
    next
      case False
      note last = this
      have dead: "\<not> 0 < refcount (a\<lparr>refcount := refcount a - 1\<rparr>)" using last by simp
      have lp_xa: "live_processing xa = live_processing p - {preq}"
        using fxa(1) dead by (auto simp: live_processing_def)
      have dom_xa: "dom (heap xa) = dom (heap p)" using fxa(1) a by auto
      have ops_xa: "\<forall>r q. heap xa r = Some q \<longrightarrow>
        op (orig_req q) \<noteq> mc_op_stats \<and> op (orig_req q) \<noteq> mc_op_version \<and>
        op (orig_req q) \<noteq> mc_op_get_service_info"
        using inv a fxa(1) by (auto simp: inflight_inv_def)
      show ?thesis
      proof (cases "processing a")
        case False
        with run a pos aa last
        have p': "p' = stat_decr (xa\<lparr>heap := (heap xa)(preq := None)\<rparr>) proxy_request_num_outstanding_stat 1"
          by (subst (asm) proxy_request_decref.simps) (simp add: Let_def xa_def x_def)
        have "preq \<notin> live_processing p" using a False by (simp add: live_processing_def)
        then have lp: "live_processing p' = live_processing p"
          using fxa(1) by (auto simp: p' live_processing_def)
        have "finite (dom (heap p'))" using inv fxa(1) by (simp add: p' inflight_inv_def)
        moreover have "\<forall>r q. heap p' r = Some q \<longrightarrow>
          op (orig_req q) \<noteq> mc_op_stats \<and> op (orig_req q) \<noteq> mc_op_version \<and>
          op (orig_req q) \<noteq> mc_op_get_service_info"
          using ops_xa by (auto simp: p' split: if_splits)
        ultimately have "inflight_inv M p'"
          using inv lp fxa(2,3) by (simp add: inflight_inv_def p')
        moreover have "dead_kept p p'"
          using fxa(1) a pos by (auto simp: dead_kept_def p')
        ultimately show ?thesis by simp
      next
        case True
        let ?arg = "stat_decr (xa\<lparr>numRequestsProcessing := numRequestsProcessing xa - 1\<rparr>)
                      proxy_reqs_processing_stat 1"
        from run a pos aa last True
        obtain p4 where p4: "pump E ?arg = Some p4"
          and p': "p' = stat_decr (p4\<lparr>heap := (heap p4)(preq := None)\<rparr>) proxy_request_num_outstanding_stat 1"
          by (subst (asm) proxy_request_decref.simps) (auto simp: Let_def xa_def x_def split: bind_splits)
        have mem: "preq \<in> live_processing p" using a True pos by (simp add: live_processing_def)
        have fin: "finite (live_processing p)"
          using inv by (simp add: inflight_inv_def live_processing_finite)
        from mem fin have cpos: "0 < card (live_processing p)" by (auto simp: card_gt_0_iff)
        with inv have nz: "numRequestsProcessing p \<noteq> 0"
          by (auto simp: inflight_inv_def)
        have un: "unat (numRequestsProcessing p - 1) = unat (numRequestsProcessing p) - 1"
          using nz by (rule unat_minus_one)
        have cd: "card (live_processing p - {preq}) = card (live_processing p) - 1"
          using mem fin by simp
        have le: "numRequestsProcessing p - 1 \<le> M"
        proof -
          have "unat (numRequestsProcessing p - 1) \<le> unat (numRequestsProcessing p)"
            using un by simp
          moreover have "unat (numRequestsProcessing p) \<le> unat M"
            using inv by (simp add: inflight_inv_def word_le_nat_alt)
          ultimately show ?thesis by (simp add: word_le_nat_alt)
        qed
        have lp_arg: "live_processing ?arg = live_processing p - {preq}"
          using lp_xa by (simp add: live_processing_def)
        have inv_arg: "inflight_inv M ?arg"
          using inv lp_arg dom_xa ops_xa fxa(2,3) un cd le
          by (simp add: inflight_inv_def)
        from 2[OF a pos aa x_def xa_def last True] inv_arg p4
        have inv4: "inflight_inv M p4" and dk4: "dead_kept ?arg p4" by blast+
        have "heap ?arg preq = Some (a\<lparr>refcount := refcount a - 1\<rparr>)"
          using fxa(1) by simp
        with dk4 dead have h4: "heap p4 preq = Some (a\<lparr>refcount := refcount a - 1\<rparr>)"
          by (auto simp: dead_kept_def)
        then have "preq \<notin> live_processing p4" using dead by (simp add: live_processing_def)
        then have lp: "live_processing p' = live_processing p4"
          by (auto simp: p' live_processing_def)
        have "finite (dom (heap p'))" using inv4 by (simp add: p' inflight_inv_def)
        moreover have "\<forall>r q. heap p' r = Some q \<longrightarrow>
          op (orig_req q) \<noteq> mc_op_stats \<and> op (orig_req q) \<noteq> mc_op_version \<and>
          op (orig_req q) \<noteq> mc_op_get_service_info"
          using inv4 by (auto simp: p' inflight_inv_def split: if_splits)
        ultimately have "inflight_inv M p'"
          using inv4 lp by (simp add: inflight_inv_def p')
        moreover have "dead_kept p p'"
        proof -
          have "dead_kept xa ?arg" by (rule dead_kept_cong) simp
          with dk_xa dk4 have d: "dead_kept p p4" by (blast intro: dead_kept_trans)
          show ?thesis
            unfolding dead_kept_def
          proof (intro allI impI)
            fix y qy assume y: "heap p y = Some qy \<and> refcount qy \<le> 0"
            with a pos have "y \<noteq> preq" by auto
            moreover from d y have "heap p4 y = Some qy" by (auto simp: dead_kept_def)
            ultimately show "heap p' y = Some qy" by (simp add: p')
          qed
        qed
        ultimately show ?thesis by simp
      qed
    qed
  qed
qed


lemma routed_op_stored:
  assumes "new_proxy_request_t E p req reqComplete senderId = Inr (q, p1)"
  shows "op (orig_req q) = routed_op req \<and> \<not> processing q \<and> refcount q = 1 \<and>
         heap p1 = heap p \<and> opts p1 = opts p \<and>
         numRequestsProcessing p1 = numRequestsProcessing p"
  using new_proxy_request_t_Inr(1,2)[OF assms]
  by (auto simp: routed_op_def strncmp_prefix)

lemma step_inflight_inv:
  assumes inv: "inflight_inv M p" and lim: "admits_limited e" and run: "step E e p = Some p'"
  shows "inflight_inv M p'"
proof (cases e)
  case (EvDispatch r req reqComplete senderId)
  with run have free: "heap p r = None" by (auto split: if_splits)
  show ?thesis
  proof (cases "new_proxy_request_t E p req reqComplete senderId")
    case (Inl ex)
    with run EvDispatch free have "p' = p" by simp
    with inv show ?thesis by simp
  next
    case (Inr qp)
    obtain q p1 where qp: "qp = (q, p1)" by (cases qp)
    with Inr have c: "new_proxy_request_t E p req reqComplete senderId = Inr (q, p1)" by simp
    from routed_op_stored[OF c]
    have q: "op (orig_req q) = routed_op req" "\<not> processing q" "refcount q = 1"
      and f1: "heap p1 = heap p" "opts p1 = opts p"
        "numRequestsProcessing p1 = numRequestsProcessing p" by simp_all
    let ?p2 = "p1\<lparr>heap := (heap p1)(r \<mapsto> q)\<rparr>"
    from run EvDispatch free c have d: "dispatchRequest E r ?p2 = Some p'" by simp
    have ops: "op (orig_req q) \<noteq> mc_op_stats" "op (orig_req q) \<noteq> mc_op_version"
      "op (orig_req q) \<noteq> mc_op_get_service_info"
      using lim EvDispatch q(1) by simp_all
    have lp2: "live_processing ?p2 = live_processing p"
      using f1(1) free q(2) by (auto simp: live_processing_def)
    have inv2: "inflight_inv M ?p2"
      using inv f1 lp2 ops by (auto simp: inflight_inv_def)
    have h2: "heap ?p2 r = Some q" by simp
    show ?thesis
    proof (cases "rateLimited ?p2 q")
      case True
      with d h2 q(3)
      have p': "p' = stat_incr (?p2\<lparr>heap := (heap ?p2)(r \<mapsto> q\<lparr>refcount := refcount q + 1\<rparr>),
                              waitingRequests := waitingRequests ?p2 @ [r]\<rparr>)
                   proxy_reqs_waiting_stat 1"
        using dispatchRequest_queues[OF h2 True, of E] by simp
      show ?thesis
        using inv2 h2
      proof (rule inflight_inv_upd_same)
        show "heap p' = (heap ?p2)(r \<mapsto> q\<lparr>refcount := refcount q + 1\<rparr>)" by (simp add: p')
        show "processing (q\<lparr>refcount := refcount q + 1\<rparr>) = processing q" by simp
        show "(0 < refcount (q\<lparr>refcount := refcount q + 1\<rparr>)) = (0 < refcount q)"
          using q(3) by simp
        show "orig_req (q\<lparr>refcount := refcount q + 1\<rparr>) = orig_req q" by simp
        show "opts p' = opts ?p2" by (simp add: p')
        show "numRequestsProcessing p' = numRequestsProcessing ?p2" by (simp add: p')
      qed
    next
      case False
      with d h2 have pr: "processRequest E r ?p2 = Some p'"
        by (simp add: dispatchRequest_def)
      from False ops inv2 have "numRequestsProcessing ?p2 < M"
        by (auto simp: rateLimited_def inflight_inv_def split: if_splits)
      from inflight_inv_processRequest[OF inv2 this pr] show ?thesis by simp
    qed
  qed
next
  case (EvIncref r)
  with run obtain q where q: "heap p r = Some q" "0 < refcount q"
    and p': "p' = p\<lparr>heap := (heap p)(r \<mapsto> q\<lparr>refcount := refcount q + 1\<rparr>)\<rparr>"
    by (auto simp: proxy_request_incref_def split: bind_splits if_splits)
  show ?thesis
    using inv q(1)
  proof (rule inflight_inv_upd_same)
    show "heap p' = (heap p)(r \<mapsto> q\<lparr>refcount := refcount q + 1\<rparr>)" by (simp add: p')
    show "processing (q\<lparr>refcount := refcount q + 1\<rparr>) = processing q" by simp
    show "(0 < refcount (q\<lparr>refcount := refcount q + 1\<rparr>)) = (0 < refcount q)"
      using q(2) by simp
    show "orig_req (q\<lparr>refcount := refcount q + 1\<rparr>) = orig_req q" by simp
    show "opts p' = opts p" by (simp add: p')
    show "numRequestsProcessing p' = numRequestsProcessing p" by (simp add: p')
  qed
next
  case (EvDecref r)
  with run have "proxy_request_decref E r p = Some p'" by simp
  with pump_decref_inflight_inv(2)[of M p E r] inv show ?thesis by blast
next
  case (EvFiber r dispatchMcMsg)
  let ?p0 = "p\<lparr>fiberTasks := remove1 r (fiberTasks p)\<rparr>"
  from run EvFiber obtain msg p1 where
    s: "sendReply E r msg ?p0 = Some p1" and d: "proxy_request_decref E r p1 = Some p'"
    by (auto simp: runFiberTask_def split: if_splits bind_splits sum.splits)
  have inv0: "inflight_inv M ?p0" using inv by (rule inflight_inv_cong) simp_all
  from sendReply_frame[OF s] obtain q q' where
    f: "heap ?p0 r = Some q" "heap p1 = (heap ?p0)(r \<mapsto> q')"
      "processing q' = processing q" "refcount q' = refcount q" "orig_req q' = orig_req q"
      "opts p1 = opts ?p0" "numRequestsProcessing p1 = numRequestsProcessing ?p0"
    by blast
  have inv1: "inflight_inv M p1"
    using inv0 f(1,2,3) _ f(5,6,7)
  proof (rule inflight_inv_upd_same)
    show "(0 < refcount q') = (0 < refcount q)" using f(4) by simp
  qed
  with pump_decref_inflight_inv(2)[of M p1 E r] d show ?thesis by blast
qed

lemma run_inflight_inv:
  assumes "inflight_inv M p" "\<forall>e\<in>set evs. admits_limited e" "run E evs p = Some p'"
  shows "inflight_inv M p'"
  using assms
proof (induction evs arbitrary: p)
  case Nil
  then show ?case by simp
next
  case (Cons e es)
  from Cons.prems(3) obtain p1 where s: "step E e p = Some p1" and r: "run E es p1 = Some p'"
    by (auto split: bind_splits)
  from step_inflight_inv[OF Cons.prems(1) _ s] Cons.prems(2) have "inflight_inv M p1" by simp
  from Cons.IH[OF this _ r] Cons.prems(2) show ?case by simp
qed

lemma run_take:
  assumes "run E evs p = Some p'"
  shows "\<exists>pk. run E (take k evs) p = Some pk"
  using assms
proof (induction evs arbitrary: p k)
  case Nil
  then show ?case by simp
next
  case (Cons e es)
  from Cons.prems obtain p1 where s: "step E e p = Some p1" and r: "run E es p1 = Some p'"
    by (auto split: bind_splits)
  show ?case
  proof (cases k)
    case 0
    then show ?thesis by simp
  next
    case (Suc k')
    from Cons.IH[OF r, of k'] s Suc show ?thesis by simp
  qed
qed

lemma new_proxy_t_inflight_inv:
  assumes "new_proxy_t options = Some p0" "0 < proxy_max_inflight_requests options"
  shows "inflight_inv (proxy_max_inflight_requests options) p0"
proof -
  from assms(1) have "heap p0 = Map.empty \<and> opts p0 = options \<and> numRequestsProcessing p0 = 0"
    by (auto simp: new_proxy_t_def proxy_set_default_route_def proxy_t_init_def Let_def
             split: if_splits bind_splits)
  with assms(2) show ?thesis by (simp add: inflight_inv_def live_processing_def)
qed

text \<open>
  C1, as the code has it. On a worker with limit \<open>M > 0\<close>, along every sequence of
  admissions, reference operations and completed fiber tasks in which every admitted
  request is stored under an operation other than stats, version and get_service_info,
  the counter \<open>numRequestsProcessing\<close> is at every point the number of requests that are
  alive and being processed, and never exceeds \<open>M\<close>.
\<close>

theorem inflight_bounded_for_limited_requests:
  assumes "new_proxy_t options = Some p0"
    and "0 < proxy_max_inflight_requests options"
    and "\<forall>e\<in>set evs. admits_limited e"
    and "run E evs p0 = Some p"
  shows "\<forall>k\<le>length evs. \<exists>pk. run E (take k evs) p0 = Some pk \<and>
           numRequestsProcessing pk \<le> proxy_max_inflight_requests options \<and>
           unat (numRequestsProcessing pk) = card (live_processing pk)"
proof (intro allI impI)
  fix k assume "k \<le> length evs"
  from run_take[OF assms(4), of k] obtain pk where pk: "run E (take k evs) p0 = Some pk" by blast
  have "\<forall>e\<in>set (take k evs). admits_limited e"
    using assms(3) by (meson in_set_takeD)
  from run_inflight_inv[OF new_proxy_t_inflight_inv[OF assms(1,2)] this pk]
  have "numRequestsProcessing pk \<le> proxy_max_inflight_requests options \<and>
        unat (numRequestsProcessing pk) = card (live_processing pk)"
    by (simp add: inflight_inv_def)
  with pk show "\<exists>pk. run E (take k evs) p0 = Some pk \<and>
           numRequestsProcessing pk \<le> proxy_max_inflight_requests options \<and>
           unat (numRequestsProcessing pk) = card (live_processing pk)" by blast
qed


lemma new_proxy_t_scenario: "new_proxy_t (scenario_opts m) = Some (scenario_proxy m)"
proof -
  have "proxy_set_default_route (proxy_t_init (scenario_opts m)) ''/prn/cluster01/'' =
          Some ((proxy_t_init (scenario_opts m))
                  \<lparr>default_route := ''/'' @ ''prn'' @ ''/'' @ ''cluster01'' @ ''/'',
                   default_region := ''prn'', default_cluster := ''cluster01''\<rparr>)"
    by (rule proxy_set_default_route_shape(1)) simp_all
  then show ?thesis by (simp add: new_proxy_t_def scenario_proxy_def scenario_opts_def)
qed

theorem inflight_bounded_for_limited_requests_witness:
  "\<exists>p. run scenario_externals
          [EvDispatch 1 (request_msg mc_op_set ''a'') False 0, EvDecref 1,
           EvDispatch 2 (request_msg mc_op_set ''b'') False 0, EvDecref 2,
           EvFiber 1 scenario_route]
          (scenario_proxy 1) = Some p \<and>
       numRequestsProcessing p \<le> 1 \<and> fiberTasks p = [2] \<and> waitingRequests p = []"
proof -
  let ?evs = "[EvDispatch 1 (request_msg mc_op_set ''a'') False 0, EvDecref 1,
           EvDispatch 2 (request_msg mc_op_set ''b'') False 0, EvDecref 2,
           EvFiber 1 scenario_route]"
  have r: "\<exists>p. run scenario_externals ?evs (scenario_proxy 1) = Some p \<and>
             fiberTasks p = [2] \<and> waitingRequests p = []"
    by (simp add: new_proxy_request_t_def scenario_externals_def request_msg_def
     strncmp_eq_def c_str_def kInternalGetPrefix_def Let_def dispatchRequest_def rateLimited_def
     scenario_proxy_def proxy_t_init_def scenario_opts_def stat_incr_def stat_decr_def
     processRequest_def cmd_stat_incr_def
     routeHandlesProcessRequest_def proxy_request_incref_def proxy_request_decref.simps
     pump.simps runFiberTask_def fiber_task_def scenario_route_def sendReply_def
     continueSendReply_def enqueueReply_def)
  then obtain p where p: "run scenario_externals ?evs (scenario_proxy 1) = Some p"
    "fiberTasks p = [2]" "waitingRequests p = []" by blast
  have lim: "\<forall>e\<in>set ?evs. admits_limited e"
    by (simp add: routed_op_def request_msg_def)
  have pos: "0 < proxy_max_inflight_requests (scenario_opts 1)"
    by (simp add: scenario_opts_def)
  from inflight_bounded_for_limited_requests[OF new_proxy_t_scenario pos lim p(1),
         rule_format, of 5]
  have "numRequestsProcessing p \<le> 1"
    using p(1) by (simp add: scenario_opts_def)
  with p show ?thesis by blast
qed

text \<open>
  The claim as stated fails: with limit 1 and a set request in flight, a version request
  is admitted at once and the counter is 2.
\<close>

theorem inflight_limit_exceeded_by_bypass_request:
  "new_proxy_t (scenario_opts 1) = Some (scenario_proxy 1) \<and>
   proxy_max_inflight_requests (opts (scenario_proxy 1)) = 1 \<and>
   (\<exists>p. run scenario_externals
          [EvDispatch 1 (request_msg mc_op_set ''a'') False 0,
           EvDispatch 2 (request_msg mc_op_version []) False 0]
          (scenario_proxy 1) = Some p \<and>
        proxy_max_inflight_requests (opts p) = 1 \<and>
        numRequestsProcessing p = 2 \<and>
        \<not> numRequestsProcessing p \<le> proxy_max_inflight_requests (opts p))"
proof -
  have "\<exists>p. run scenario_externals
          [EvDispatch 1 (request_msg mc_op_set ''a'') False 0,
           EvDispatch 2 (request_msg mc_op_version []) False 0]
          (scenario_proxy 1) = Some p \<and>
        proxy_max_inflight_requests (opts p) = 1 \<and>
        numRequestsProcessing p = 2"
    by (simp add: new_proxy_request_t_def scenario_externals_def request_msg_def
     strncmp_eq_def c_str_def kInternalGetPrefix_def Let_def dispatchRequest_def rateLimited_def
     scenario_proxy_def proxy_t_init_def scenario_opts_def stat_incr_def processRequest_def
     cmd_stat_incr_def routeHandlesProcessRequest_def proxy_request_incref_def)
  then obtain p where p: "run scenario_externals
          [EvDispatch 1 (request_msg mc_op_set ''a'') False 0,
           EvDispatch 2 (request_msg mc_op_version []) False 0]
          (scenario_proxy 1) = Some p" "proxy_max_inflight_requests (opts p) = 1"
        "numRequestsProcessing p = 2" by blast
  from p(2,3) have "\<not> numRequestsProcessing p \<le> proxy_max_inflight_requests (opts p)"
    by (simp add: word_le_nat_alt)
  moreover have "proxy_max_inflight_requests (opts (scenario_proxy 1)) = 1"
    by (simp add: scenario_proxy_def proxy_t_init_def scenario_opts_def)
  ultimately show ?thesis using p new_proxy_t_scenario by blast
qed


end
